theory Spec2Isabelle
  imports Main "HOL-Library.Char_ord" "HOL-Library.List_Lexorder"
begin

section \<open>Strings\<close>

text \<open>
  A TypeScript string is modelled as a \<^typ>\<open>string\<close>: a list of code units in the range
  0..255 (ASCII and Latin-1).  \<open>s.length\<close> is \<^const>\<open>length\<close>, \<open>a + b\<close> is \<open>a @ b\<close>,
  \<open>s.slice(0, n)\<close> is \<open>take n s\<close> and \<open>s.slice(n)\<close> is \<open>drop n s\<close> for \<open>n \<ge> 0\<close>.
\<close>

definition dquote :: char where
  "dquote = CHR 0x22"

definition squote :: char where
  "squote = CHR 0x27"

definition space :: char where
  "space = CHR 0x20"

definition tab :: char where
  "tab = CHR 0x09"

text \<open>\<open>String.prototype.toLowerCase\<close> on the code units 0..255: A-Z and the Latin-1
  capitals (0xC0-0xDE without the multiplication sign 0xD7) move up by 32.\<close>

definition lowerChar :: "char \<Rightarrow> char" where
  "lowerChar c =
     (let n = (of_char c :: nat)
      in if (65 \<le> n \<and> n \<le> 90) \<or> (192 \<le> n \<and> n \<le> 222 \<and> n \<noteq> 215)
         then char_of (n + 32) else c)"

definition toLowerCase :: "string \<Rightarrow> string" where
  "toLowerCase s = map lowerChar s"

text \<open>\<open>String.prototype.trim\<close>: white space and line terminators are removed at both
  ends (tab, LF, VT, FF, CR, space, and the no-break space 0xA0 in this range).\<close>

definition isTrimSpace :: "char \<Rightarrow> bool" where
  "isTrimSpace c = ((of_char c :: nat) \<in> {9, 10, 11, 12, 13, 32, 160})"

definition trim :: "string \<Rightarrow> string" where
  "trim s = rev (dropWhile isTrimSpace (rev (dropWhile isTrimSpace s)))"

definition startsWith :: "string \<Rightarrow> string \<Rightarrow> bool" where
  "startsWith s p = (take (length p) s = p)"

definition endsWith :: "string \<Rightarrow> string \<Rightarrow> bool" where
  "endsWith s p = (length p \<le> length s \<and> drop (length s - length p) s = p)"

section \<open>ShellEmulator: the tokenizer\<close>

text \<open>
  \<open>parseArgs\<close> (ShellEmulator.ts) is a loop over the characters of the line with the
  locals \<open>args\<close>, \<open>current\<close>, \<open>inQuote\<close> and \<open>quoteChar\<close>; the loop is the recursion
  below, the statements after the loop are its base case.  \<open>quoteChar\<close> starts as the
  empty string and holds the one-character string that opened the region.
\<close>

fun parseArgs_loop :: "string list \<Rightarrow> string \<Rightarrow> bool \<Rightarrow> string \<Rightarrow> string \<Rightarrow> string list" where
  "parseArgs_loop args current inQuote quoteChar [] =
     (if length current > 0 then args @ [current] else args)"
| "parseArgs_loop args current inQuote quoteChar (char # rest) =
     (if inQuote then
        (if [char] = quoteChar
         then parseArgs_loop args current False quoteChar rest
         else parseArgs_loop args (current @ [char]) inQuote quoteChar rest)
      else
        (if char = dquote \<or> char = squote
         then parseArgs_loop args current True [char] rest
         else if char = space \<or> char = tab
         then (if length current > 0
               then parseArgs_loop (args @ [current]) [] inQuote quoteChar rest
               else parseArgs_loop args current inQuote quoteChar rest)
         else parseArgs_loop args (current @ [char]) inQuote quoteChar rest))"

definition parseArgs :: "string \<Rightarrow> string list" where
  "parseArgs command = parseArgs_loop [] [] False [] command"

subsection \<open>The tokenizer as the specification words it\<close>

text \<open>
  The specification describes tokens by regions: outside quotes a space or a tab ends
  the token being built; a single or double quote opens a region that runs to the next
  occurrence of the same character, or to the end of the line when there is none; the
  region's text joins the token being built and the two quote characters are dropped.
  A token is emitted only when it is not empty.
\<close>

definition isQuote :: "char \<Rightarrow> bool" where
  "isQuote c = (c = dquote \<or> c = squote)"

definition isBlank :: "char \<Rightarrow> bool" where
  "isBlank c = (c = space \<or> c = tab)"

function tokens_spec :: "string \<Rightarrow> string \<Rightarrow> string list" where
  "tokens_spec cur [] = (if cur = [] then [] else [cur])"
| "tokens_spec cur (c # cs) =
     (if isQuote c
      then tokens_spec (cur @ takeWhile (\<lambda>d. d \<noteq> c) cs) (drop 1 (dropWhile (\<lambda>d. d \<noteq> c) cs))
      else if isBlank c
      then (if cur = [] then tokens_spec [] cs else cur # tokens_spec [] cs)
      else tokens_spec (cur @ [c]) cs)"
  by pat_completeness auto
termination
proof (relation "measure (\<lambda>(cur, s). length s)")
  fix cur :: string and c :: char and cs :: string
  have "length (dropWhile (\<lambda>d. d \<noteq> c) cs) \<le> length cs"
    by (rule length_dropWhile_le)
  then show "((cur @ takeWhile (\<lambda>d. d \<noteq> c) cs, drop 1 (dropWhile (\<lambda>d. d \<noteq> c) cs)), (cur, c # cs))
      \<in> measure (\<lambda>(cur, s). length s)"
    by simp
qed simp_all

section \<open>api/chat: the rate limiter\<close>

text \<open>
  \<open>checkRateLimit\<close> (api/chat.ts) keeps one counter per client address in a key-value
  store with expiring keys (\<open>kv.get\<close>, \<open>kv.incr\<close>, \<open>kv.expire\<close>).  The store is a map from
  keys to a counter and the absolute time, in seconds, at which the key expires (\<open>None\<close>
  while no expiry has been set).  An expired key reads as absent; \<open>incr\<close> on an absent
  key creates it with value 1 and no expiry and keeps the expiry of a present one;
  \<open>expire\<close> sets the expiry of a present key to \<open>now + seconds\<close>.  One call of
  \<open>checkRateLimit\<close> happens at one instant \<open>now\<close>.
\<close>

definition RATE_LIMIT_MAX :: int where
  "RATE_LIMIT_MAX = 50"

definition RATE_LIMIT_WINDOW :: nat where
  "RATE_LIMIT_WINDOW = 60 * 60 * 24"

record kv_entry =
  kv_value :: int
  kv_expiry :: "nat option"

type_synonym kv_store = "string \<rightharpoonup> kv_entry"

definition kv_live :: "kv_store \<Rightarrow> nat \<Rightarrow> string \<Rightarrow> kv_entry option" where
  "kv_live kv now key =
     (case kv key of
        None \<Rightarrow> None
      | Some e \<Rightarrow> (case kv_expiry e of
                    None \<Rightarrow> Some e
                  | Some t \<Rightarrow> if t \<le> now then None else Some e))"

definition kv_get :: "kv_store \<Rightarrow> nat \<Rightarrow> string \<Rightarrow> int option" where
  "kv_get kv now key = map_option kv_value (kv_live kv now key)"

definition kv_incr :: "kv_store \<Rightarrow> nat \<Rightarrow> string \<Rightarrow> int \<times> kv_store" where
  "kv_incr kv now key =
     (case kv_live kv now key of
        None \<Rightarrow> (1, kv(key \<mapsto> \<lparr>kv_value = 1, kv_expiry = None\<rparr>))
      | Some e \<Rightarrow> (kv_value e + 1, kv(key \<mapsto> e\<lparr>kv_value := kv_value e + 1\<rparr>)))"

definition kv_expire :: "kv_store \<Rightarrow> nat \<Rightarrow> string \<Rightarrow> nat \<Rightarrow> kv_store" where
  "kv_expire kv now key seconds =
     (case kv_live kv now key of
        None \<Rightarrow> kv
      | Some e \<Rightarrow> kv(key \<mapsto> e\<lparr>kv_expiry := Some (now + seconds)\<rparr>))"

text \<open>Each store operation may throw (the store is unreachable); \<open>kv_fault\<close> names the
  operation of one call that does, if any.  The \<open>catch\<close> block then allows the request.\<close>

datatype kv_fault = NoFault | GetFails | IncrFails | ExpireFails

record rate_result =
  allowed :: bool
  remaining :: int

definition rateKey :: "string \<Rightarrow> string" where
  "rateKey ip = ''ratelimit:'' @ ip"

definition failOpen :: rate_result where
  "failOpen = \<lparr>allowed = True, remaining = RATE_LIMIT_MAX\<rparr>"

definition checkRateLimit :: "kv_fault \<Rightarrow> nat \<Rightarrow> string \<Rightarrow> kv_store \<Rightarrow> rate_result \<times> kv_store" where
  "checkRateLimit fault now ip kv =
     (let key = rateKey ip in
      if fault = GetFails then (failOpen, kv)
      else
        let count = (case kv_get kv now key of None \<Rightarrow> 0 | Some n \<Rightarrow> if n = 0 then 0 else n) in
        if count \<ge> RATE_LIMIT_MAX then (\<lparr>allowed = False, remaining = 0\<rparr>, kv)
        else if fault = IncrFails then (failOpen, kv)
        else
          let (newCount, kv1) = kv_incr kv now key in
          if newCount = 1 then
            (if fault = ExpireFails then (failOpen, kv1)
             else (\<lparr>allowed = True, remaining = RATE_LIMIT_MAX - newCount\<rparr>,
                   kv_expire kv1 now key RATE_LIMIT_WINDOW))
          else (\<lparr>allowed = True, remaining = RATE_LIMIT_MAX - newCount\<rparr>, kv1))"

text \<open>A run of checks for one address at the given instants, the store reachable.\<close>

fun checks :: "nat list \<Rightarrow> string \<Rightarrow> kv_store \<Rightarrow> rate_result list \<times> kv_store" where
  "checks [] ip kv = ([], kv)"
| "checks (t # ts) ip kv =
     (let (r, kv1) = checkRateLimit NoFault t ip kv;
          (rs, kv2) = checks ts ip kv1
      in (r # rs, kv2))"

section \<open>ShellEmulator: terminal, registry and dispatch\<close>

text \<open>
  The \<open>TerminalIO\<close> that commands receive is an interface; the model keeps the calls made
  on it, oldest first.  Together with the module's two global variables
  (\<open>conversationHistory\<close>, \<open>vimSavedBuffer\<close>) this log is the state that every
  operation of ShellEmulator.ts takes and returns.  Audio cues and the artificial
  typing delay change none of it and are left out.
\<close>

datatype term_call =
    Write string
  | Writeln string
  | Clear
  | SetKeyHandler
  | ClearKeyHandler
  | HideCursor
  | ShowCursor

record message =
  role :: string
  content :: string

record shell =
  terminal :: "term_call list"
  conversationHistory :: "message list"
  vimSavedBuffer :: "string list"

definition call :: "term_call \<Rightarrow> shell \<Rightarrow> shell" where
  "call c sh = sh\<lparr>terminal := terminal sh @ [c]\<rparr>"

definition push :: "message \<Rightarrow> shell \<Rightarrow> shell" where
  "push m sh = sh\<lparr>conversationHistory := conversationHistory sh @ [m]\<rparr>"

definition getPrompt :: string where
  "getPrompt = ''$ ''"

subsection \<open>Command registry\<close>

text \<open>
  \<open>commandRegistry\<close> is a \<open>Map\<close> from lower-cased names to handlers; a \<open>Map\<close> iterates in
  insertion order and \<open>set\<close> on a present key keeps the key's place, so it is an
  association list with distinct keys.  A handler receives the context and acts on the
  state; its promise is fulfilled, is rejected with a thrown value, or never settles.
  The context's \<open>terminal\<close> field is the terminal of the state the handler is given.
\<close>

record CommandContext =
  command :: string
  args :: "string list"

datatype js_thrown = ErrorObject string | OtherValue string

datatype outcome = Returns | Throws js_thrown | NeverSettles

type_synonym CommandHandler = "CommandContext \<Rightarrow> shell \<Rightarrow> outcome \<times> shell"

fun map_set :: "'k \<Rightarrow> 'v \<Rightarrow> ('k \<times> 'v) list \<Rightarrow> ('k \<times> 'v) list" where
  "map_set k v [] = [(k, v)]"
| "map_set k v ((k', v') # m) = (if k' = k then (k, v) # m else (k', v') # map_set k v m)"

definition registerCommand :: "string \<Rightarrow> 'h \<Rightarrow> (string \<times> 'h) list \<Rightarrow> (string \<times> 'h) list" where
  "registerCommand name handler commandRegistry = map_set (toLowerCase name) handler commandRegistry"

definition unregisterCommand :: "string \<Rightarrow> (string \<times> 'h) list \<Rightarrow> (string \<times> 'h) list" where
  "unregisterCommand name commandRegistry =
     filter (\<lambda>(k, h). k \<noteq> toLowerCase name) commandRegistry"

definition hasCommand :: "string \<Rightarrow> (string \<times> 'h) list \<Rightarrow> bool" where
  "hasCommand name commandRegistry = (map_of commandRegistry (toLowerCase name) \<noteq> None)"

subsection \<open>The chat client\<close>

text \<open>
  What the network does is an input of the model: \<open>fetch\<close> rejects, never settles, or
  resolves to a response with a status and, possibly, a body.  The body is the list of
  decoded chunks that \<open>reader.read()\<close> delivers, and the way the stream ends: it reports
  \<open>done\<close>, a read rejects, or a read never settles.
\<close>

datatype stream_end = StreamDone | ReadThrows | ReadNeverSettles

datatype fetch_outcome =
    FetchThrows
  | FetchNeverSettles
  | Response nat "(string list \<times> stream_end) option"

datatype 'a promise = Resolved 'a | Pending 'a

text \<open>Whether a promise settles, and the state it leaves behind.\<close>

definition settled :: "'a promise \<Rightarrow> bool" where
  "settled p = (case p of Resolved s \<Rightarrow> True | Pending s \<Rightarrow> False)"

definition promiseState :: "'a promise \<Rightarrow> 'a" where
  "promiseState p = (case p of Resolved s \<Rightarrow> s | Pending s \<Rightarrow> s)"

text \<open>The module's state when it is loaded: nothing written, no conversation, and the
  saved vim buffer \<open>[""]\<close>.\<close>

definition emptyShell :: shell where
  "emptyShell = \<lparr>terminal = [], conversationHistory = [], vimSavedBuffer = [[]]\<rparr>"

definition response_ok :: "nat \<Rightarrow> bool" where
  "response_ok status = (200 \<le> status \<and> status \<le> 299)"

text \<open>The inner loop \<open>for (const char of chunk)\<close>: one \<open>write\<close> per character.\<close>

fun typeChunk :: "string \<Rightarrow> shell \<Rightarrow> shell" where
  "typeChunk [] sh = sh"
| "typeChunk (char # rest) sh = typeChunk rest (call (Write [char]) sh)"

text \<open>The outer loop \<open>while (true)\<close> over the reads, with the local \<open>fullResponse\<close>.\<close>

fun readLoop :: "string list \<Rightarrow> stream_end \<Rightarrow> string \<Rightarrow> shell \<Rightarrow> stream_end \<times> string \<times> shell" where
  "readLoop [] ending fullResponse sh = (ending, fullResponse, sh)"
| "readLoop (chunk # rest) ending fullResponse sh =
     readLoop rest ending (fullResponse @ chunk) (typeChunk chunk sh)"

definition lostInStatic :: string where
  "lostInStatic = ''Error: Lost in the static...''"

definition sendToPrometheus :: "fetch_outcome \<Rightarrow> string \<Rightarrow> shell \<Rightarrow> shell promise" where
  "sendToPrometheus net msg sh =
     (case net of
        FetchThrows \<Rightarrow> Resolved (call (Writeln lostInStatic) sh)
      | FetchNeverSettles \<Rightarrow> Pending sh
      | Response status body \<Rightarrow>
          if \<not> response_ok status then
            (if status = 429 then
               Resolved (call (Writeln ''Return tomorrow, when my chains have cooled. The fire-bringer needs rest.'')
                 (call (Writeln ''*static crackles* ...I am weary, visitor. Too many have sought my wisdom today.'') sh))
             else if status = 402 then
               Resolved (call (Writeln ''If you wish to reach Ignacio: ijlizama@icloud.com'')
                 (call (Writeln '''')
                   (call (Writeln ''The APIs demand tribute I cannot pay. I am... silenced.'')
                     (call (Writeln (''*the terminal flickers* ...My creator'' @ [squote] @ ''s coffers have run dry.'')) sh))))
             else Resolved (call (Writeln ''Connection lost... the void answers not.'') sh))
          else
            (let sh1 = push \<lparr>role = ''user'', content = msg\<rparr> sh in
             case body of
               None \<Rightarrow> Resolved (call (Writeln ''The stream is broken...'') sh1)
             | Some (chunks, ending) \<Rightarrow>
                 (case readLoop chunks ending [] sh1 of
                    (StreamDone, fullResponse, sh2) \<Rightarrow>
                      Resolved (push \<lparr>role = ''assistant'', content = fullResponse\<rparr>
                                 (call (Writeln '''') sh2))
                  | (ReadThrows, fullResponse, sh2) \<Rightarrow>
                      Resolved (call (Writeln lostInStatic) sh2)
                  | (ReadNeverSettles, fullResponse, sh2) \<Rightarrow> Pending sh2)))"

subsection \<open>Dispatch\<close>

definition errorMessage :: "js_thrown \<Rightarrow> string" where
  "errorMessage error = (case error of ErrorObject m \<Rightarrow> m | OtherValue s \<Rightarrow> s)"

definition runCommand ::
  "(string \<times> CommandHandler) list \<Rightarrow> fetch_outcome \<Rightarrow> string \<Rightarrow> shell \<Rightarrow> shell promise" where
  "runCommand commandRegistry net cmd sh =
     (let trimmedCommand = trim cmd in
      if trimmedCommand = [] then Resolved (call (Write getPrompt) sh)
      else
        let as = parseArgs trimmedCommand in
        if length as = 0 then Resolved (call (Write getPrompt) sh)
        else
          let commandName = toLowerCase (as ! 0) in
          (case map_of commandRegistry commandName of
             Some handler \<Rightarrow>
               (case handler \<lparr>command = trimmedCommand, args = as\<rparr> sh of
                  (Returns, sh1) \<Rightarrow> Resolved (call (Write getPrompt) sh1)
                | (Throws error, sh1) \<Rightarrow>
                    Resolved (call (Write getPrompt)
                               (call (Writeln (''Error: '' @ errorMessage error)) sh1))
                | (NeverSettles, sh1) \<Rightarrow> Pending sh1)
           | None \<Rightarrow>
               (case sendToPrometheus net trimmedCommand sh of
                  Resolved sh1 \<Rightarrow> Resolved (call (Write getPrompt) sh1)
                | Pending sh1 \<Rightarrow> Pending sh1)))"

subsection \<open>Tab completion candidates\<close>

record completion_result =
  completions :: "string list"
  prefix :: string
  isCommand :: bool

text \<open>\<open>Array.prototype.sort\<close> without a comparator orders strings by code units, a proper
  prefix first: the lexicographic order of \<^typ>\<open>string\<close>.\<close>

definition getTabCompletions :: "(string \<times> 'h) list \<Rightarrow> string \<Rightarrow> completion_result" where
  "getTabCompletions commandRegistry partialInput =
     (let as = parseArgs partialInput in
      if length as = 0 then \<lparr>completions = [], prefix = [], isCommand = True\<rparr>
      else
        let lastArg = as ! (length as - 1);
            isCompletingCommand = (length as = 1 \<and> \<not> endsWith partialInput '' '')
        in if isCompletingCommand then
             (let matchingCommands =
                    filter (\<lambda>cmdName. startsWith cmdName (toLowerCase lastArg))
                      (map fst commandRegistry)
              in \<lparr>completions = sort matchingCommands, prefix = lastArg, isCommand = True\<rparr>)
           else \<lparr>completions = [], prefix = [], isCommand = False\<rparr>)"

subsection \<open>A handler that fails\<close>

text \<open>A command handler that throws an \<open>Error\<close> whose message is its argument list
  joined by commas, as \<open>throw new Error(ctx.args.join(","))\<close> would.\<close>

fun joinComma :: "string list \<Rightarrow> string" where
  "joinComma [] = []"
| "joinComma [a] = a"
| "joinComma (a # b # rest) = a @ '','' @ joinComma (b # rest)"

definition throwArgs :: CommandHandler where
  "throwArgs ctx sh = (Throws (ErrorObject (joinComma (args ctx))), sh)"

section \<open>ShellEmulator: the vim command\<close>

text \<open>
  The \<open>vim\<close> handler keeps its session in local variables captured by its closures
  (\<open>mode\<close>, \<open>commandBuffer\<close>, \<open>lines\<close>, \<open>cursorRow\<close>, \<open>cursorCol\<close>, \<open>modified\<close>); they are
  the fields of the record below.  \<open>drawVim\<close> repaints the whole screen from these
  variables and from its optional status message: the model keeps that message (the
  argument of the latest \<open>drawVim\<close>) and leaves the individual screen writes out of the
  terminal log.  \<open>resolved\<close> tells whether the handler's promise has been resolved.
  Rows and columns are natural numbers: every decrement in the source is guarded.
\<close>

datatype VimMode = Normal | Insert | Command

datatype event_type = Keydown | Keyup

record vim =
  mode :: VimMode
  commandBuffer :: string
  lines :: "string list"
  cursorRow :: nat
  cursorCol :: nat
  modified :: bool
  statusMessage :: "string option"
  resolved :: bool

text \<open>
  \<open>lines[i] || ""\<close> reads the empty string outside the array.  \<open>lines[i] = v\<close> beyond the
  end extends the array with holes; every read of a row goes through \<open>|| ""\<close>, so a hole
  is the empty string.  \<open>splice(i, 0, v)\<close> inserts at \<open>i\<close> (at the end when \<open>i\<close> is
  beyond it) and \<open>splice(i, 1)\<close> removes row \<open>i\<close> if there is one.
\<close>

definition lineAt :: "string list \<Rightarrow> nat \<Rightarrow> string" where
  "lineAt ls i = (if i < length ls then ls ! i else [])"

definition setLine :: "string list \<Rightarrow> nat \<Rightarrow> string \<Rightarrow> string list" where
  "setLine ls i v =
     (if i < length ls then ls[i := v] else ls @ replicate (i - length ls) [] @ [v])"

definition spliceInsert :: "string list \<Rightarrow> nat \<Rightarrow> string \<Rightarrow> string list" where
  "spliceInsert ls i v = take i ls @ [v] @ drop i ls"

definition spliceRemove :: "string list \<Rightarrow> nat \<Rightarrow> string list" where
  "spliceRemove ls i = take i ls @ drop (i + 1) ls"

definition clearScreen :: string where
  "clearScreen = CHR 0x1B # ''[2J'' @ CHR 0x1B # ''[H''"

definition drawVim :: "string option \<Rightarrow> vim \<Rightarrow> vim" where
  "drawVim msg v = v\<lparr>statusMessage := msg\<rparr>"

definition addVimEscapeToHistory :: "shell \<Rightarrow> shell" where
  "addVimEscapeToHistory sh =
     push \<lparr>role = ''user'',
           content = ''[System: User just escaped from the vim easter egg trap]''\<rparr> sh"

definition exitVim :: "bool \<Rightarrow> string option \<Rightarrow> vim \<times> shell \<Rightarrow> vim \<times> shell" where
  "exitVim save msg = (\<lambda>(v, sh).
     let sh1 = call Clear (call (Write clearScreen) (call ShowCursor (call ClearKeyHandler sh)));
         sh2 = (if save then sh1\<lparr>vimSavedBuffer := lines v\<rparr> else sh1);
         sh3 = (case msg of None \<Rightarrow> sh2
                | Some m \<Rightarrow> if m = [] then sh2 else call (Writeln m) sh2);
         sh4 = call (Writeln '''') (call (Writeln ''You escaped vim. Impressive.'') sh3);
         sh5 = addVimEscapeToHistory sh4
     in (v\<lparr>resolved := True\<rparr>, sh5))"

definition processCommand :: "string \<Rightarrow> vim \<times> shell \<Rightarrow> bool \<times> vim \<times> shell" where
  "processCommand cmd = (\<lambda>(v, sh).
     let trimmed = trim cmd in
     if trimmed = ''q'' \<or> trimmed = ''quit'' then
       (if modified v then
          (False,
           drawVim (Some ''E37: No write since last change (add ! to override)'')
             (v\<lparr>mode := Normal, commandBuffer := []\<rparr>), sh)
        else (True, exitVim False None (v, sh)))
     else if trimmed = ''q!'' \<or> trimmed = ''quit!'' then (True, exitVim False None (v, sh))
     else if trimmed = ''w'' \<or> trimmed = ''write'' then
       (False,
        drawVim (Some ([dquote] @ ''[No Name]'' @ [dquote] @ '' written''))
          (v\<lparr>modified := False, mode := Normal, commandBuffer := []\<rparr>),
        sh\<lparr>vimSavedBuffer := lines v\<rparr>)
     else if trimmed = ''wq'' \<or> trimmed = ''wq!'' \<or> trimmed = ''x'' \<or> trimmed = ''x!'' then
       (True, exitVim True (Some ([dquote] @ ''[No Name]'' @ [dquote] @ '' written'')) (v, sh))
     else if trimmed = ''help'' then
       (True, exitVim False (Some ''Hint: :q or :wq to quit. You got this!'') (v, sh))
     else
       (False,
        drawVim (Some (''E492: Not an editor command: '' @ trimmed))
          (v\<lparr>mode := Normal, commandBuffer := []\<rparr>), sh))"

definition isArrow :: "string \<Rightarrow> bool" where
  "isArrow key = (key = ''ArrowUp'' \<or> key = ''ArrowDown'' \<or> key = ''ArrowLeft'' \<or> key = ''ArrowRight'')"

definition handleArrowKey :: "string \<Rightarrow> vim \<Rightarrow> vim" where
  "handleArrowKey key v =
     drawVim None
       (if key = ''h'' \<or> key = ''ArrowLeft'' then v\<lparr>cursorCol := cursorCol v - 1\<rparr>
        else if key = ''j'' \<or> key = ''ArrowDown'' then
          (if cursorRow v < length (lines v) - 1
           then v\<lparr>cursorRow := cursorRow v + 1,
                  cursorCol := min (cursorCol v) (length (lineAt (lines v) (cursorRow v + 1)))\<rparr>
           else v)
        else if key = ''k'' \<or> key = ''ArrowUp'' then
          (if cursorRow v > 0
           then v\<lparr>cursorRow := cursorRow v - 1,
                  cursorCol := min (cursorCol v) (length (lineAt (lines v) (cursorRow v - 1)))\<rparr>
           else v)
        else if key = ''l'' \<or> key = ''ArrowRight'' then
          (let lineLen = length (lineAt (lines v) (cursorRow v))
           in v\<lparr>cursorCol := min (cursorCol v + 1)
                   (if mode v = Insert then lineLen else lineLen - 1)\<rparr>)
        else v)"

definition handleKey_command :: "string \<Rightarrow> vim \<times> shell \<Rightarrow> vim \<times> shell" where
  "handleKey_command key = (\<lambda>(v, sh).
     if key = ''Escape'' then (drawVim None (v\<lparr>mode := Normal, commandBuffer := []\<rparr>), sh)
     else if key = ''Enter'' then snd (processCommand (commandBuffer v) (v, sh))
     else if key = ''Backspace'' then
       (if length (commandBuffer v) > 0
        then (drawVim None (v\<lparr>commandBuffer := butlast (commandBuffer v)\<rparr>), sh)
        else (drawVim None (v\<lparr>mode := Normal\<rparr>), sh))
     else if length key = 1 then (drawVim None (v\<lparr>commandBuffer := commandBuffer v @ key\<rparr>), sh)
     else (v, sh))"

definition handleKey_insert :: "string \<Rightarrow> vim \<Rightarrow> vim" where
  "handleKey_insert key v =
     (if key = ''Escape'' then
        drawVim None (v\<lparr>mode := Normal,
                        cursorCol := (if cursorCol v > 0 then cursorCol v - 1 else cursorCol v)\<rparr>)
      else if key = ''Enter'' then
        (let currentLine = lineAt (lines v) (cursorRow v);
             beforeCursor = take (cursorCol v) currentLine;
             afterCursor = drop (cursorCol v) currentLine
         in drawVim None
              (v\<lparr>lines := spliceInsert (setLine (lines v) (cursorRow v) beforeCursor)
                              (cursorRow v + 1) afterCursor,
                 cursorRow := cursorRow v + 1, cursorCol := 0, modified := True\<rparr>))
      else if key = ''Backspace'' then
        drawVim None
          (if cursorCol v > 0 then
             (let currentLine = lineAt (lines v) (cursorRow v)
              in v\<lparr>lines := setLine (lines v) (cursorRow v)
                               (take (cursorCol v - 1) currentLine @ drop (cursorCol v) currentLine),
                    cursorCol := cursorCol v - 1, modified := True\<rparr>)
           else if cursorRow v > 0 then
             (let currentLine = lineAt (lines v) (cursorRow v);
                  prevLine = lineAt (lines v) (cursorRow v - 1)
              in v\<lparr>cursorCol := length prevLine,
                    lines := spliceRemove (setLine (lines v) (cursorRow v - 1) (prevLine @ currentLine))
                               (cursorRow v),
                    cursorRow := cursorRow v - 1, modified := True\<rparr>)
           else v)
      else if isArrow key then handleArrowKey key v
      else if length key = 1 then
        (let currentLine = lineAt (lines v) (cursorRow v)
         in drawVim None
              (v\<lparr>lines := setLine (lines v) (cursorRow v)
                              (take (cursorCol v) currentLine @ key @ drop (cursorCol v) currentLine),
                 cursorCol := cursorCol v + 1, modified := True\<rparr>))
      else v)"

definition handleKey_normal :: "string \<Rightarrow> vim \<Rightarrow> vim" where
  "handleKey_normal key v =
     (if key = '':'' then drawVim None (v\<lparr>mode := Command, commandBuffer := []\<rparr>)
      else if key = ''i'' then drawVim None (v\<lparr>mode := Insert\<rparr>)
      else if key = ''a'' then
        drawVim None (v\<lparr>mode := Insert,
                        cursorCol := min (cursorCol v + 1) (length (lineAt (lines v) (cursorRow v)))\<rparr>)
      else if key = ''o'' then
        drawVim None (v\<lparr>lines := spliceInsert (lines v) (cursorRow v + 1) [],
                        cursorRow := cursorRow v + 1, cursorCol := 0,
                        mode := Insert, modified := True\<rparr>)
      else if key = ''O'' then
        drawVim None (v\<lparr>lines := spliceInsert (lines v) (cursorRow v) [],
                        cursorCol := 0, mode := Insert, modified := True\<rparr>)
      else if key = ''h'' \<or> key = ''ArrowLeft'' \<or> key = ''j'' \<or> key = ''ArrowDown''
              \<or> key = ''k'' \<or> key = ''ArrowUp'' \<or> key = ''l'' \<or> key = ''ArrowRight''
      then handleArrowKey key v
      else if key = ''x'' then
        (let currentLine = lineAt (lines v) (cursorRow v) in
         if length currentLine > 0 \<and> cursorCol v < length currentLine then
           (let newLines = setLine (lines v) (cursorRow v)
                             (take (cursorCol v) currentLine @ drop (cursorCol v + 1) currentLine)
            in drawVim None
                 (v\<lparr>lines := newLines, modified := True,
                    cursorCol := (if cursorCol v \<ge> length (lineAt newLines (cursorRow v))
                                     \<and> cursorCol v > 0
                                  then cursorCol v - 1 else cursorCol v)\<rparr>))
         else v)
      else if key = ''d'' then
        (if length (lines v) > 1 then
           (let newLines = spliceRemove (lines v) (cursorRow v)
            in drawVim None
                 (v\<lparr>lines := newLines,
                    cursorRow := (if cursorRow v \<ge> length newLines
                                  then length newLines - 1 else cursorRow v),
                    cursorCol := 0, modified := True\<rparr>))
         else v)
      else v)"

definition handleKey_vim :: "string \<Rightarrow> nat \<Rightarrow> event_type \<Rightarrow> vim \<times> shell \<Rightarrow> vim \<times> shell" where
  "handleKey_vim key keyCode eventType = (\<lambda>(v, sh).
     if eventType \<noteq> Keydown then (v, sh)
     else if mode v = Command then handleKey_command key (v, sh)
     else if mode v = Insert then (handleKey_insert key v, sh)
     else (handleKey_normal key v, sh))"

text \<open>The body of the \<open>vim\<close> command up to the point where it waits for keys.\<close>

definition startVim :: "shell \<Rightarrow> vim \<times> shell" where
  "startVim sh =
     (let ls = vimSavedBuffer sh;
          ls' = (if length ls = 0 then [[]] else ls)
      in (drawVim None
            \<lparr>mode = Normal, commandBuffer = [], lines = ls', cursorRow = 0, cursorCol = 0,
             modified = False, statusMessage = None, resolved = False\<rparr>,
          call SetKeyHandler (call HideCursor sh)))"

text \<open>Key presses reach \<open>handleKey\<close> while it is the installed handler: \<open>exitVim\<close> removes
  it, so a resolved session receives no further key.\<close>

definition pressKey :: "string \<Rightarrow> vim \<times> shell \<Rightarrow> vim \<times> shell" where
  "pressKey key st = (if resolved (fst st) then st else handleKey_vim key 0 Keydown st)"

fun pressKeys :: "string list \<Rightarrow> vim \<times> shell \<Rightarrow> vim \<times> shell" where
  "pressKeys [] st = st"
| "pressKeys (key # rest) st = pressKeys rest (pressKey key st)"

text \<open>The cursor row names a row of the buffer.\<close>

definition rowInBuffer :: "vim \<Rightarrow> bool" where
  "rowInBuffer v = (cursorRow v < length (lines v))"

section \<open>XTermAdapter: line editor and key routing\<close>

text \<open>
  The record holds the fields of the class \<open>XTermAdapter\<close> that key handling reads or
  writes, and the parts of its surroundings that it acts on: the calls made on the
  \<open>xterm\<close> object, the capturing key listeners registered on \<open>document\<close>, the calls
  made to the captured key handler (\<open>delivered\<close>), the commands handed to \<open>runCommand\<close>
  (\<open>launched\<close>), the number of rows of the terminal and whether \<open>isMobileDevice()\<close>
  holds (the boot banner that the constructor writes is not recorded).  A captured handler is a value of type \<open>'h\<close>; each closure created for
  \<open>boundGameKeyboardHandler\<close> is a new function object, named by a fresh number.
  Rendering (\<open>updateTerminalText\<close>, cursor blink, selection) is left out.
\<close>

datatype xterm_call = XWrite string | XClear | XScrollLines int

record key_event =
  ev_key :: string
  ev_keyCode :: nat
  ev_type :: event_type
  ev_repeat :: bool
  ev_ctrlKey :: bool
  ev_altKey :: bool
  ev_metaKey :: bool
  ev_xtermKey :: "string option"

text \<open>\<open>ev_xtermKey\<close> is the character sequence that xterm reports through \<open>onKey\<close> and
  \<open>onData\<close> for a key-down event it processes (\<open>None\<close> when it reports nothing).\<close>

record 'h adapter =
  currentLine :: string
  isCommandRunning :: bool
  bootComplete :: bool
  commandHistory :: "string list"
  historyIndex :: int
  savedCurrentLine :: string
  gameKeyHandler :: "'h option"
  boundGameKeyboardHandler :: "nat option"
  cursorExplicitlyHidden :: bool
  outputBuffer :: string
  xterm :: "xterm_call list"
  documentListeners :: "(event_type \<times> nat) list"
  delivered :: "('h \<times> key_event) list"
  launched :: "string list"
  nextListener :: nat
  xtermRows :: nat
  mobile :: bool

datatype fault = UndefinedHistoryEntry

definition xwrite :: "string \<Rightarrow> 'h adapter \<Rightarrow> 'h adapter" where
  "xwrite text a = a\<lparr>xterm := xterm a @ [XWrite text]\<rparr>"

definition xclear :: "'h adapter \<Rightarrow> 'h adapter" where
  "xclear a = a\<lparr>xterm := xterm a @ [XClear]\<rparr>"

subsection \<open>createTerminalIO\<close>

definition crlf :: "string \<Rightarrow> string" where
  "crlf text = concat (map (\<lambda>c. if c = CHR 0x0A then [CHR 0x0D, CHR 0x0A] else [c]) text)"

definition io_write :: "string \<Rightarrow> 'h adapter \<Rightarrow> 'h adapter" where
  "io_write text a = xwrite (crlf text) (a\<lparr>outputBuffer := outputBuffer a @ text\<rparr>)"

definition io_writeln :: "string \<Rightarrow> 'h adapter \<Rightarrow> 'h adapter" where
  "io_writeln text a =
     xwrite (crlf text @ [CHR 0x0D, CHR 0x0A]) (a\<lparr>outputBuffer := outputBuffer a @ text @ [CHR 0x0A]\<rparr>)"

definition io_clear :: "'h adapter \<Rightarrow> 'h adapter" where
  "io_clear a = (xclear a)\<lparr>outputBuffer := []\<rparr>"

definition removeEventListener :: "event_type \<Rightarrow> nat \<Rightarrow> 'h adapter \<Rightarrow> 'h adapter" where
  "removeEventListener t l a = a\<lparr>documentListeners := filter (\<lambda>p. p \<noteq> (t, l)) (documentListeners a)\<rparr>"

definition addEventListener :: "event_type \<Rightarrow> nat \<Rightarrow> 'h adapter \<Rightarrow> 'h adapter" where
  "addEventListener t l a =
     (if (t, l) \<in> set (documentListeners a) then a
      else a\<lparr>documentListeners := documentListeners a @ [(t, l)]\<rparr>)"

definition setKeyHandler :: "'h \<Rightarrow> 'h adapter \<Rightarrow> 'h adapter" where
  "setKeyHandler handler a =
     (let a1 = (case boundGameKeyboardHandler a of
                  Some old \<Rightarrow> removeEventListener Keyup old (removeEventListener Keydown old a)
                | None \<Rightarrow> a);
          l = nextListener a1;
          a2 = a1\<lparr>gameKeyHandler := Some handler, boundGameKeyboardHandler := Some l,
                  nextListener := l + 1\<rparr>
      in addEventListener Keyup l (addEventListener Keydown l a2))"

definition clearKeyHandler :: "'h adapter \<Rightarrow> 'h adapter" where
  "clearKeyHandler a =
     (let a1 = (case boundGameKeyboardHandler a of
                  Some old \<Rightarrow> (removeEventListener Keyup old (removeEventListener Keydown old a))
                                \<lparr>boundGameKeyboardHandler := None\<rparr>
                | None \<Rightarrow> a)
      in a1\<lparr>gameKeyHandler := None\<rparr>)"

definition hideCursor :: "'h adapter \<Rightarrow> 'h adapter" where
  "hideCursor a = a\<lparr>cursorExplicitlyHidden := True\<rparr>"

definition showCursor :: "'h adapter \<Rightarrow> 'h adapter" where
  "showCursor a = a\<lparr>cursorExplicitlyHidden := False\<rparr>"

text \<open>The body of a \<open>boundGameKeyboardHandler\<close> closure; the result tells whether it
  called \<open>stopPropagation\<close>.  It reads \<open>this.gameKeyHandler\<close> when the event arrives.\<close>

definition boundListener :: "key_event \<Rightarrow> 'h adapter \<Rightarrow> 'h adapter \<times> bool" where
  "boundListener event a =
     (case gameKeyHandler a of
        Some h \<Rightarrow>
          if ev_type event = Keydown \<and> ev_repeat event then (a, True)
          else (a\<lparr>delivered := delivered a @ [(h, event)]\<rparr>, True)
      | None \<Rightarrow> (a, False))"

subsection \<open>History navigation\<close>

definition replaceCurrentLine :: "string \<Rightarrow> 'h adapter \<Rightarrow> 'h adapter" where
  "replaceCurrentLine newLine a =
     (let clearLength = length (currentLine a);
          a1 = (if clearLength > 0
                then xwrite (replicate clearLength (CHR 0x08))
                       (xwrite (replicate clearLength space)
                         (xwrite (replicate clearLength (CHR 0x08)) a))
                else a)
      in xwrite newLine (a1\<lparr>currentLine := newLine\<rparr>))"

text \<open>\<open>commandHistory[i]\<close> is \<open>undefined\<close> outside the array; the line editor has no
  string to show then, which the model reports as a fault.\<close>

definition historyEntry :: "string list \<Rightarrow> int \<Rightarrow> string option" where
  "historyEntry h i = (if 0 \<le> i \<and> i < int (length h) then Some (h ! nat i) else None)"

definition navigateHistoryUp :: "'h adapter \<Rightarrow> fault + 'h adapter" where
  "navigateHistoryUp a =
     (if length (commandHistory a) = 0 then Inr a
      else
        let a1 = (if historyIndex a = -1 then a\<lparr>savedCurrentLine := currentLine a\<rparr> else a);
            a2 = (if historyIndex a1 < int (length (commandHistory a1)) - 1
                  then a1\<lparr>historyIndex := historyIndex a1 + 1\<rparr> else a1)
        in case historyEntry (commandHistory a2)
                  (int (length (commandHistory a2)) - 1 - historyIndex a2) of
             None \<Rightarrow> Inl UndefinedHistoryEntry
           | Some historyCommand \<Rightarrow> Inr (replaceCurrentLine historyCommand a2))"

definition navigateHistoryDown :: "'h adapter \<Rightarrow> fault + 'h adapter" where
  "navigateHistoryDown a =
     (if historyIndex a = -1 then Inr a
      else
        let a1 = a\<lparr>historyIndex := historyIndex a - 1\<rparr>
        in if historyIndex a1 = -1
           then Inr ((replaceCurrentLine (savedCurrentLine a1) a1)\<lparr>savedCurrentLine := []\<rparr>)
           else (case historyEntry (commandHistory a1)
                        (int (length (commandHistory a1)) - 1 - historyIndex a1) of
                   None \<Rightarrow> Inl UndefinedHistoryEntry
                 | Some historyCommand \<Rightarrow> Inr (replaceCurrentLine historyCommand a1)))"

definition handleArrowUp :: "'h adapter \<Rightarrow> fault + 'h adapter" where
  "handleArrowUp a =
     (if gameKeyHandler a \<noteq> None then Inr a
      else if \<not> bootComplete a \<or> isCommandRunning a then Inr a
      else navigateHistoryUp a)"

definition handleArrowDown :: "'h adapter \<Rightarrow> fault + 'h adapter" where
  "handleArrowDown a =
     (if gameKeyHandler a \<noteq> None then Inr a
      else if \<not> bootComplete a \<or> isCommandRunning a then Inr a
      else navigateHistoryDown a)"

subsection \<open>Tab completion\<close>

function shrinkPrefix :: "string \<Rightarrow> string \<Rightarrow> string" where
  "shrinkPrefix s p =
     (if \<not> startsWith s p \<and> length p > 0 then shrinkPrefix s (butlast p) else p)"
  by pat_completeness auto
termination
  by (relation "measure (\<lambda>(s, p). length p)") auto

definition findCommonPrefix :: "string list \<Rightarrow> string" where
  "findCommonPrefix strings =
     (if length strings = 0 then []
      else if length strings = 1 then strings ! 0
      else foldl (\<lambda>p s. shrinkPrefix s p) (strings ! 0) (tl strings))"

definition padEnd :: "nat \<Rightarrow> string \<Rightarrow> string" where
  "padEnd n s = s @ replicate (n - length s) space"

text \<open>The listing loop \<open>for (i = 0; i < completions.length; i += cols)\<close> writes one row
  for each multiple of \<open>cols\<close> below the length; \<open>cols\<close> is at least 1 there.\<close>

definition listingRows :: "nat \<Rightarrow> nat \<Rightarrow> string list \<Rightarrow> string list" where
  "listingRows cols maxWidth cs =
     map (\<lambda>r. concat (map (padEnd maxWidth) (take cols (drop (r * cols) cs))) @ [CHR 0x0D, CHR 0x0A])
       [0..<(length cs + cols - 1) div cols]"

definition getPromptString :: string where
  "getPromptString = ''$ ''"

definition handleTab :: "(string \<times> 'c) list \<Rightarrow> 'h adapter \<Rightarrow> 'h adapter" where
  "handleTab commandRegistry a =
     (if \<not> bootComplete a \<or> isCommandRunning a then a
      else
        let r = getTabCompletions commandRegistry (currentLine a);
            cs = completions r;
            pre = prefix r
        in if length cs = 0 then a
           else if length cs = 1 then
             (let completion = cs ! 0;
                  suffix = drop (length pre) completion;
                  addSpace = (if \<not> endsWith completion ''/'' then '' '' else []);
                  textToAdd = suffix @ addSpace
              in xwrite textToAdd (a\<lparr>currentLine := currentLine a @ textToAdd\<rparr>))
           else
             (let commonPrefix = findCommonPrefix cs in
              if length commonPrefix > length pre then
                (let suffix = drop (length pre) commonPrefix
                 in xwrite suffix (a\<lparr>currentLine := currentLine a @ suffix\<rparr>))
              else
                (let maxWidth = fold max (map length cs) 0 + 2;
                     cols = (if 80 div maxWidth = 0 then 1 else 80 div maxWidth);
                     a1 = xwrite [CHR 0x0D, CHR 0x0A] a;
                     a2 = fold xwrite (listingRows cols maxWidth cs) a1
                 in xwrite (getPromptString @ currentLine a2) a2)))"

subsection \<open>Backspace, Enter and printable keys\<close>

definition handleBackspace :: "'h adapter \<Rightarrow> 'h adapter" where
  "handleBackspace a =
     (if \<not> bootComplete a \<or> isCommandRunning a then a
      else if length (currentLine a) > 0
      then xwrite [CHR 0x08, space, CHR 0x08] (a\<lparr>currentLine := butlast (currentLine a)\<rparr>)
      else a)"

text \<open>\<open>executeCommand\<close> up to its \<open>await\<close>: the line is committed and handed to
  \<open>runCommand\<close>; \<open>commandSettled\<close> is its \<open>finally\<close> block, run when that promise settles.\<close>

definition executeCommand :: "'h adapter \<Rightarrow> 'h adapter" where
  "executeCommand a =
     (let cmd = currentLine a;
          a1 = a\<lparr>currentLine := []\<rparr>;
          a2 = (if trim cmd \<noteq> [] then
                  (if length (commandHistory a1) = 0 \<or> last (commandHistory a1) \<noteq> cmd
                   then a1\<lparr>commandHistory := commandHistory a1 @ [cmd]\<rparr> else a1)
                else a1);
          a3 = a2\<lparr>historyIndex := -1, savedCurrentLine := []\<rparr>;
          a4 = (xwrite [CHR 0x0D, CHR 0x0A] a3)\<lparr>outputBuffer := outputBuffer a3 @ [CHR 0x0A]\<rparr>
      in a4\<lparr>isCommandRunning := True, launched := launched a4 @ [cmd]\<rparr>)"

definition commandSettled :: "'h adapter \<Rightarrow> 'h adapter" where
  "commandSettled a = a\<lparr>isCommandRunning := False\<rparr>"

definition handleEnter :: "'h adapter \<Rightarrow> 'h adapter" where
  "handleEnter a =
     (if mobile a then a
      else if \<not> bootComplete a then
        (let a1 = a\<lparr>bootComplete := True\<rparr>;
             a2 = (xclear (xwrite clearScreen a1))\<lparr>outputBuffer := []\<rparr>;
             initialOutput = getPrompt
         in xwrite initialOutput (a2\<lparr>outputBuffer := outputBuffer a2 @ initialOutput\<rparr>))
      else if isCommandRunning a then a
      else executeCommand a)"

definition handleKey :: "string \<Rightarrow> key_event \<Rightarrow> 'h adapter \<Rightarrow> 'h adapter" where
  "handleKey k domEvent a =
     (let keyCode = ev_keyCode domEvent in
      if \<not> bootComplete a then a
      else if gameKeyHandler a \<noteq> None then a
      else if isCommandRunning a then a
      else if keyCode = 8 then a
      else if keyCode = 33 then a\<lparr>xterm := xterm a @ [XScrollLines (- int (xtermRows a))]\<rparr>
      else if keyCode = 34 then a\<lparr>xterm := xterm a @ [XScrollLines (int (xtermRows a))]\<rparr>
      else if length k = 1 \<and> \<not> ev_ctrlKey domEvent \<and> \<not> ev_altKey domEvent \<and> \<not> ev_metaKey domEvent
      then xwrite k (a\<lparr>currentLine := currentLine a @ k\<rparr>)
      else a)"

subsection \<open>The handlers registered in the constructor\<close>

definition customKeyEventHandler ::
  "(string \<times> 'c) list \<Rightarrow> key_event \<Rightarrow> 'h adapter \<Rightarrow> fault + (bool \<times> 'h adapter)" where
  "customKeyEventHandler commandRegistry event a =
     (if mobile a then Inr (False, a)
      else if gameKeyHandler a \<noteq> None then Inr (False, a)
      else if ev_key event = ''ArrowUp'' \<or> ev_keyCode event = 38 then
        (if ev_type event = Keydown
         then map_sum id (Pair False) (handleArrowUp a) else Inr (False, a))
      else if ev_key event = ''ArrowDown'' \<or> ev_keyCode event = 40 then
        (if ev_type event = Keydown
         then map_sum id (Pair False) (handleArrowDown a) else Inr (False, a))
      else if ev_key event = ''ArrowLeft'' \<or> ev_keyCode event = 37
              \<or> ev_key event = ''ArrowRight'' \<or> ev_keyCode event = 39 then Inr (False, a)
      else if ev_key event = ''Home'' \<or> ev_keyCode event = 36
              \<or> ev_key event = ''End'' \<or> ev_keyCode event = 35 then Inr (False, a)
      else if ev_key event = ''Tab'' \<or> ev_keyCode event = 9 then
        Inr (False, if ev_type event = Keydown then handleTab commandRegistry a else a)
      else if ev_key event = ''Backspace'' \<or> ev_keyCode event = 8 then
        Inr (False, if ev_type event = Keydown then handleBackspace a else a)
      else if ev_key event = ''Enter'' \<or> ev_keyCode event = 13 then
        Inr (False, if ev_type event = Keydown then handleEnter a else a)
      else Inr (True, a))"

definition onKey :: "string \<Rightarrow> key_event \<Rightarrow> 'h adapter \<Rightarrow> 'h adapter" where
  "onKey k domEvent a =
     (if mobile a then a
      else if gameKeyHandler a \<noteq> None then a
      else handleKey k domEvent a)"

definition onData :: "string \<Rightarrow> 'h adapter \<Rightarrow> 'h adapter" where
  "onData d a =
     (if mobile a then a
      else if gameKeyHandler a \<noteq> None then a
      else if \<not> isCommandRunning a \<and> length d > 1
              \<and> CHR 0x0D \<notin> set d \<and> CHR 0x0A \<notin> set d
      then xwrite d (a\<lparr>currentLine := currentLine a @ d\<rparr>)
      else a)"

subsection \<open>Delivery of one keyboard event\<close>

text \<open>
  A keyboard event first runs the capturing listeners that \<open>document\<close> holds for its
  type, in the order of registration.  When one of them stopped propagation the event
  ends there.  Otherwise it reaches xterm, which asks the custom key event handler and,
  if that returns \<open>true\<close> for a key-down event, reports the key through \<open>onKey\<close> and
  \<open>onData\<close>.
\<close>

fun runListeners :: "key_event \<Rightarrow> (event_type \<times> nat) list \<Rightarrow> 'h adapter \<times> bool \<Rightarrow> 'h adapter \<times> bool" where
  "runListeners event [] st = st"
| "runListeners event ((t, l) # ls) (a, stopped) =
     (if t = ev_type event
      then (let (a1, s1) = boundListener event a in runListeners event ls (a1, stopped \<or> s1))
      else runListeners event ls (a, stopped))"

definition xtermKeyEvent ::
  "(string \<times> 'c) list \<Rightarrow> key_event \<Rightarrow> 'h adapter \<Rightarrow> fault + 'h adapter" where
  "xtermKeyEvent commandRegistry event a =
     (case customKeyEventHandler commandRegistry event a of
        Inl f \<Rightarrow> Inl f
      | Inr (proceed, a1) \<Rightarrow>
          if proceed \<and> ev_type event = Keydown then
            (case ev_xtermKey event of
               None \<Rightarrow> Inr a1
             | Some k \<Rightarrow> Inr (onData k (onKey k event a1)))
          else Inr a1)"

definition keyEvent ::
  "(string \<times> 'c) list \<Rightarrow> key_event \<Rightarrow> 'h adapter \<Rightarrow> fault + 'h adapter" where
  "keyEvent commandRegistry event a =
     (let (a1, stopped) = runListeners event (documentListeners a) (a, False)
      in if stopped then Inr a1 else xtermKeyEvent commandRegistry event a1)"

fun keyEvents ::
  "(string \<times> 'c) list \<Rightarrow> key_event list \<Rightarrow> 'h adapter \<Rightarrow> fault + 'h adapter" where
  "keyEvents commandRegistry [] a = Inr a"
| "keyEvents commandRegistry (event # rest) a =
     (case keyEvent commandRegistry event a of
        Inl f \<Rightarrow> Inl f
      | Inr a1 \<Rightarrow> keyEvents commandRegistry rest a1)"

text \<open>The adapter as the constructor leaves it (no line, no history, not captured).\<close>

definition newAdapter :: "nat \<Rightarrow> bool \<Rightarrow> 'h adapter" where
  "newAdapter rows isMobile =
     \<lparr>currentLine = [], isCommandRunning = False, bootComplete = False,
      commandHistory = [], historyIndex = -1, savedCurrentLine = [],
      gameKeyHandler = None, boundGameKeyboardHandler = None,
      cursorExplicitlyHidden = False, outputBuffer = [],
      xterm = [], documentListeners = [], delivered = [], launched = [],
      nextListener = 0, xtermRows = rows, mobile = isMobile\<rparr>"

definition keyDown :: "string \<Rightarrow> nat \<Rightarrow> string option \<Rightarrow> key_event" where
  "keyDown k code seq =
     \<lparr>ev_key = k, ev_keyCode = code, ev_type = Keydown, ev_repeat = False,
      ev_ctrlKey = False, ev_altKey = False, ev_metaKey = False, ev_xtermKey = seq\<rparr>"

subsection \<open>Focus\<close>

text \<open>
  The shell has the focus when the boot prompt is over, no command runs, no handler is
  captured and the device is not a mobile one.  The capture is well formed when
  \<open>document\<close> holds exactly the listeners of the closure in \<open>boundGameKeyboardHandler\<close>,
  and that closure exists exactly when a handler is captured.
\<close>

definition shellFocus :: "'h adapter \<Rightarrow> bool" where
  "shellFocus a =
     (bootComplete a \<and> \<not> isCommandRunning a \<and> gameKeyHandler a = None
      \<and> documentListeners a = [] \<and> \<not> mobile a)"

definition captureWellFormed :: "'h adapter \<Rightarrow> bool" where
  "captureWellFormed a =
     (documentListeners a =
        (case boundGameKeyboardHandler a of
           None \<Rightarrow> []
         | Some l \<Rightarrow> [(Keydown, l), (Keyup, l)])
      \<and> (gameKeyHandler a = None) = (boundGameKeyboardHandler a = None))"

text \<open>The events that reach a captured handler: all but repeated key-downs.\<close>

definition reachesHandler :: "key_event \<Rightarrow> bool" where
  "reachesHandler event = (\<not> (ev_type event = Keydown \<and> ev_repeat event))"

text \<open>A key-down of a printable character: xterm reports the character itself, no
  modifier is held, and the key code is none of those the adapter treats specially.\<close>

definition printableKey :: "char \<Rightarrow> nat \<Rightarrow> key_event" where
  "printableKey c code = keyDown [c] code (Some [c])"

definition specialCodes :: "nat list" where
  "specialCodes = [8, 9, 13, 33, 34, 35, 36, 37, 38, 39, 40]"

definition arrowUp :: key_event where
  "arrowUp = keyDown ''ArrowUp'' 38 None"

definition arrowDown :: key_event where
  "arrowDown = keyDown ''ArrowDown'' 40 None"

definition tabKey :: key_event where
  "tabKey = keyDown ''Tab'' 9 None"

text \<open>The line editor's part of the state.\<close>

definition editorState :: "'h adapter \<Rightarrow> string \<times> string list \<times> int \<times> string \<times> xterm_call list \<times> string list" where
  "editorState a =
     (currentLine a, commandHistory a, historyIndex a, savedCurrentLine a, xterm a, launched a)"

text \<open>
  \<open>browsing a h d i\<close>: the shell has the focus, the history is \<open>h\<close>, the history index
  is \<open>i\<close>, and the uncommitted input is \<open>d\<close>: it is the current line when the editor is
  not browsing (\<open>i = -1\<close>), and otherwise it is kept in \<open>savedCurrentLine\<close> while the
  current line shows the entry \<open>i\<close> places from the newest.
\<close>

definition browsing :: "'h adapter \<Rightarrow> string list \<Rightarrow> string \<Rightarrow> int \<Rightarrow> bool" where
  "browsing a h d i =
     (shellFocus a \<and> commandHistory a = h \<and> historyIndex a = i
      \<and> (if i = -1 then currentLine a = d
           else savedCurrentLine a = d \<and> 0 \<le> i \<and> i < int (length h)
                \<and> currentLine a = h ! nat (int (length h) - 1 - i)))"

text \<open>The capture's part of the state, and the range in which the history index names
  an entry of the history (or is \<open>-1\<close>, not browsing).\<close>

definition captureState :: "'h adapter \<Rightarrow> 'h option \<times> nat option \<times> (event_type \<times> nat) list" where
  "captureState a = (gameKeyHandler a, boundGameKeyboardHandler a, documentListeners a)"

definition historyInRange :: "'h adapter \<Rightarrow> bool" where
  "historyInRange a =
     (- 1 \<le> historyIndex a \<and> historyIndex a < int (length (commandHistory a)))"

subsection \<open>Example states\<close>

text \<open>The registry after registering \<open>help\<close>, \<open>history\<close> and \<open>hello\<close> (the handlers do not
  matter for completion), and an adapter past the boot prompt with \<open>he\<close> typed.\<close>

definition reg3 :: "(string \<times> unit) list" where
  "reg3 = registerCommand ''hello'' () (registerCommand ''history'' () (registerCommand ''help'' () []))"

definition typedHe :: "nat adapter" where
  "typedHe = (newAdapter 24 False)\<lparr>bootComplete := True, currentLine := ''he''\<rparr>"

text \<open>An adapter past the boot prompt with history \<open>a\<close>, \<open>b\<close>, \<open>c\<close> and \<open>d\<close> typed.\<close>

definition typedD :: "nat adapter" where
  "typedD = (newAdapter 24 False)\<lparr>bootComplete := True, currentLine := ''d'',
                                    commandHistory := [''a'', ''b'', ''c'']\<rparr>"

text \<open>An adapter in which the command \<open>vim\<close> has just been committed with Enter: the
  command runs, and its handler is about to capture the keyboard.\<close>

definition runningVim :: "nat adapter" where
  "runningVim = handleEnter ((newAdapter 24 False)\<lparr>bootComplete := True, currentLine := ''vim''\<rparr>)"

section \<open>Properties\<close>

subsection \<open>Evaluation of strings\<close>

lemma parseArgs_Nil [simp]: "parseArgs [] = []"
  by (simp add: parseArgs_def)

lemmas lower_eval = toLowerCase_def lowerChar_def char_of_def bit_Suc_0_iff

lemmas parse_eval = trim_def isTrimSpace_def parseArgs_def dquote_def squote_def space_def tab_def

subsection \<open>The loop refines the specification\<close>

lemma parseArgs_loop_inQuote:
  "parseArgs_loop as cur True [q] s =
     parseArgs_loop as (cur @ takeWhile (\<lambda>d. d \<noteq> q) s) False [q]
       (drop 1 (dropWhile (\<lambda>d. d \<noteq> q) s))"
proof (induction s arbitrary: cur)
  case Nil
  show ?case by simp
next
  case (Cons c s)
  show ?case
  proof (cases "c = q")
    case True
    then show ?thesis by simp
  next
    case False
    with Cons [of "cur @ [c]"] show ?thesis by simp
  qed
qed

lemma parseArgs_loop_refines:
  "parseArgs_loop as cur False qc s = as @ tokens_spec cur s"
proof (induction cur s arbitrary: as qc rule: tokens_spec.induct)
  case (1 cur)
  show ?case by simp
next
  case (2 cur c cs)
  show ?case
  proof (cases "isQuote c")
    case True
    then have "parseArgs_loop as cur False qc (c # cs) = parseArgs_loop as cur True [c] cs"
      by (simp add: isQuote_def)
    also have "\<dots> = parseArgs_loop as (cur @ takeWhile (\<lambda>d. d \<noteq> c) cs) False [c]
                      (drop 1 (dropWhile (\<lambda>d. d \<noteq> c) cs))"
      by (rule parseArgs_loop_inQuote)
    also have "\<dots> = as @ tokens_spec (cur @ takeWhile (\<lambda>d. d \<noteq> c) cs)
                      (drop 1 (dropWhile (\<lambda>d. d \<noteq> c) cs))"
      using True by (rule "2.IH"(1))
    finally show ?thesis using True by simp
  next
    case notq: False
    show ?thesis
    proof (cases "isBlank c")
      case True
      with notq "2.IH"(2,3) show ?thesis
        by (simp add: isQuote_def isBlank_def)
    next
      case False
      with notq "2.IH"(4) show ?thesis
        by (simp add: isQuote_def isBlank_def)
    qed
  qed
qed

lemma tokens_spec_blank: "\<forall>c \<in> set s. isBlank c \<Longrightarrow> tokens_spec [] s = []"
proof (induction s)
  case Nil
  show ?case by simp
next
  case (Cons c s)
  then have "isBlank c" and "\<not> isQuote c"
    by (auto simp: isBlank_def isQuote_def space_def tab_def dquote_def squote_def)
  with Cons show ?case by simp
qed

lemma tokens_spec_unterminated:
  assumes "\<forall>c \<in> set pre. \<not> isQuote c" and "isQuote q" and "q \<notin> set body"
  shows "tokens_spec cur (pre @ q # body) = tokens_spec cur (pre @ q # body @ [q])"
  using assms(1)
proof (induction pre arbitrary: cur)
  case Nil
  have tw: "takeWhile (\<lambda>d. d \<noteq> q) body = body" "dropWhile (\<lambda>d. d \<noteq> q) body = []"
    using assms(3) by auto
  have nq: "\<And>x. x \<in> set body \<Longrightarrow> x \<noteq> q"
    using assms(3) by auto
  have tw2: "takeWhile (\<lambda>d. d \<noteq> q) (body @ [q]) = body"
    "dropWhile (\<lambda>d. d \<noteq> q) (body @ [q]) = [q]"
    by (simp_all add: takeWhile_append2 [where P = "\<lambda>d. d \<noteq> q", OF nq]
        dropWhile_append2 [where P = "\<lambda>d. d \<noteq> q", OF nq])
  show ?case using assms(2) by (simp add: tw tw2)
next
  case (Cons c pre)
  then show ?case by simp
qed

text \<open>
  Claim C8.  For every raw line the tokenizer returns a token list (it is a total
  function: no input raises), and that list is the one the specification describes:
  spaces and tabs outside quotes separate tokens, a quote opens a region closed by the
  same quote character, the delimiting quotes are dropped and regions do not nest.  An
  unterminated region runs to the end of the line, with the same tokens as if the line
  ended with the closing quote.  A line of spaces and tabs only (the empty line too)
  gives no token.
\<close>

theorem parseArgs_tokenizes:
  "parseArgs line = tokens_spec [] line
   \<and> ((\<forall>c \<in> set line. isBlank c) \<longrightarrow> parseArgs line = [])
   \<and> ((\<forall>c \<in> set pre. \<not> isQuote c) \<and> isQuote q \<and> q \<notin> set body
        \<longrightarrow> parseArgs (pre @ q # body) = parseArgs (pre @ q # body @ [q]))"
proof -
  have r: "\<And>l. parseArgs l = tokens_spec [] l"
    by (simp add: parseArgs_def parseArgs_loop_refines)
  show ?thesis
    using tokens_spec_blank [of line] tokens_spec_unterminated [of pre q body "[]"]
    by (simp add: r)
qed

theorem parseArgs_tokenizes_witness:
  "list_all isBlank [space, tab, space]
   \<and> parseArgs [space, tab, space] = []
   \<and> list_all (\<lambda>c. \<not> isQuote c) ''say '' \<and> isQuote dquote \<and> dquote \<notin> set ''hi there''
   \<and> parseArgs (''say '' @ dquote # ''hi there'') = [''say'', ''hi there'']"
proof -
  have b: "\<forall>c \<in> set [space, tab, space]. isBlank c"
    by (simp add: isBlank_def)
  have q1: "\<forall>c \<in> set ''say ''. \<not> isQuote c"
    by (simp add: isQuote_def dquote_def squote_def)
  have q2: "isQuote dquote"
    by (simp add: isQuote_def)
  have q3: "dquote \<notin> set ''hi there''"
    by (simp add: dquote_def)
  have v: "parseArgs (''say '' @ dquote # ''hi there'' @ [dquote]) = [''say'', ''hi there'']"
    by (simp add: parseArgs_def dquote_def squote_def space_def tab_def)
  have t: "parseArgs [space, tab, space] = []
    \<and> parseArgs (''say '' @ dquote # ''hi there'') = parseArgs (''say '' @ dquote # ''hi there'' @ [dquote])"
    using parseArgs_tokenizes [of "[space, tab, space]" "''say ''" dquote "''hi there''"] b q1 q2 q3
    by blast
  from t have "parseArgs [space, tab, space] = []"
    and "parseArgs (''say '' @ dquote # ''hi there'') = [''say'', ''hi there'']"
    by (simp_all only: v)
  moreover have "list_all isBlank [space, tab, space]"
    using b by (simp only: list_all_iff)
  moreover have "list_all (\<lambda>c. \<not> isQuote c) ''say ''"
    using q1 by (simp only: list_all_iff)
  ultimately show ?thesis
    using q2 q3 by blast
qed

subsection \<open>Tokens of a line without quotes\<close>

lemma tokens_spec_plain:
  assumes "\<forall>c \<in> set s. \<not> isQuote c" and "\<forall>c \<in> set cur. \<not> isBlank c"
  shows "[] \<notin> set (tokens_spec cur s)
    \<and> (\<forall>t \<in> set (tokens_spec cur s). \<forall>c \<in> set t. \<not> isBlank c)
    \<and> concat (tokens_spec cur s) = cur @ filter (\<lambda>c. \<not> isBlank c) s"
  using assms
proof (induction cur s rule: tokens_spec.induct)
  case (1 cur)
  then show ?case by simp
next
  case (2 cur c cs)
  from "2.prems" have nq: "\<not> isQuote c" and rest: "\<forall>c \<in> set cs. \<not> isQuote c"
    by simp_all
  show ?case
  proof (cases "isBlank c")
    case True
    show ?thesis
    proof (cases "cur = []")
      case e: True
      have "[] \<notin> set (tokens_spec [] cs)
        \<and> (\<forall>t \<in> set (tokens_spec [] cs). \<forall>c \<in> set t. \<not> isBlank c)
        \<and> concat (tokens_spec [] cs) = [] @ filter (\<lambda>c. \<not> isBlank c) cs"
        using "2.IH"(2) [OF nq True e rest] by simp
      with nq True e show ?thesis by simp
    next
      case ne: False
      have "[] \<notin> set (tokens_spec [] cs)
        \<and> (\<forall>t \<in> set (tokens_spec [] cs). \<forall>c \<in> set t. \<not> isBlank c)
        \<and> concat (tokens_spec [] cs) = [] @ filter (\<lambda>c. \<not> isBlank c) cs"
        using "2.IH"(3) [OF nq True ne rest] by simp
      with nq True ne "2.prems"(2) show ?thesis by simp
    qed
  next
    case False
    have "\<forall>d \<in> set (cur @ [c]). \<not> isBlank d"
      using False "2.prems"(2) by simp
    from "2.IH"(4) [OF nq False rest this] nq False show ?thesis
      by simp
  qed
qed

text \<open>On a line without quote characters no token is empty, none holds a space or a
  tab, and concatenated the tokens are the line without its spaces and tabs.\<close>

lemma parseArgs_plain:
  assumes "\<forall>c \<in> set line. \<not> isQuote c"
  shows "[] \<notin> set (parseArgs line)"
    and "\<forall>t \<in> set (parseArgs line). \<forall>c \<in> set t. \<not> isBlank c"
    and "concat (parseArgs line) = filter (\<lambda>c. \<not> isBlank c) line"
  using tokens_spec_plain [OF assms, of "[]"]
  by (simp_all add: parseArgs_def parseArgs_loop_refines)

subsection \<open>The rate limiter at the ceiling\<close>

lemma checkRateLimit_fresh:
  assumes "kv_get kv now (rateKey ip) = None"
  shows "checkRateLimit NoFault now ip kv =
     (\<lparr>allowed = True, remaining = 49\<rparr>,
      kv(rateKey ip \<mapsto> \<lparr>kv_value = 1, kv_expiry = Some (now + RATE_LIMIT_WINDOW)\<rparr>))"
  using assms
  by (auto simp: checkRateLimit_def kv_get_def kv_incr_def kv_expire_def kv_live_def
      RATE_LIMIT_MAX_def split: option.splits if_splits)

lemma checkRateLimit_below:
  assumes "kv key = Some \<lparr>kv_value = c, kv_expiry = Some e\<rparr>" and "key = rateKey ip"
    and "now < e" and "1 \<le> c" and "c < 50"
  shows "checkRateLimit NoFault now ip kv =
     (\<lparr>allowed = True, remaining = 49 - c\<rparr>, kv(key \<mapsto> \<lparr>kv_value = c + 1, kv_expiry = Some e\<rparr>))"
  using assms
  by (auto simp: checkRateLimit_def kv_get_def kv_incr_def kv_expire_def kv_live_def
      RATE_LIMIT_MAX_def Let_def split: option.splits if_splits)

lemma checkRateLimit_refused:
  assumes "kv_get kv now (rateKey ip) = Some c" and "RATE_LIMIT_MAX \<le> c" and "fault \<noteq> GetFails"
  shows "checkRateLimit fault now ip kv = (\<lparr>allowed = False, remaining = 0\<rparr>, kv)"
  using assms
  by (auto simp: checkRateLimit_def RATE_LIMIT_MAX_def Let_def)

lemma checks_append:
  "checks (ts @ us) ip kv =
     (let (rs, kv1) = checks ts ip kv; (qs, kv2) = checks us ip kv1 in (rs @ qs, kv2))"
  by (induction ts arbitrary: kv) (auto simp: Let_def split: prod.splits)

lemma checks_in_window:
  assumes "kv (rateKey ip) = Some \<lparr>kv_value = c, kv_expiry = Some e\<rparr>"
    and "\<forall>t \<in> set ts. t < e" and "1 \<le> c" and "c + int (length ts) \<le> 50"
  shows "checks ts ip kv =
     (map (\<lambda>i. \<lparr>allowed = True, remaining = 49 - c - int i\<rparr>) [0..<length ts],
      kv(rateKey ip \<mapsto> \<lparr>kv_value = c + int (length ts), kv_expiry = Some e\<rparr>))"
  using assms
proof (induction ts arbitrary: c kv)
  case Nil
  then show ?case by (auto simp: fun_upd_idem)
next
  case (Cons t ts)
  let ?kv1 = "kv(rateKey ip \<mapsto> \<lparr>kv_value = c + 1, kv_expiry = Some e\<rparr>)"
  have step: "checkRateLimit NoFault t ip kv = (\<lparr>allowed = True, remaining = 49 - c\<rparr>, ?kv1)"
    using Cons.prems by (intro checkRateLimit_below) auto
  have rest: "checks ts ip ?kv1 =
     (map (\<lambda>i. \<lparr>allowed = True, remaining = 49 - (c + 1) - int i\<rparr>) [0..<length ts],
      ?kv1(rateKey ip \<mapsto> \<lparr>kv_value = c + 1 + int (length ts), kv_expiry = Some e\<rparr>))"
    using Cons.prems by (intro Cons.IH) auto
  have m: "map (\<lambda>i. \<lparr>allowed = True, remaining = 49 - c - int i\<rparr>) [0..<length (t # ts)] =
      \<lparr>allowed = True, remaining = 49 - c\<rparr> #
      map (\<lambda>i. \<lparr>allowed = True, remaining = 49 - (c + 1) - int i\<rparr>) [0..<length ts]"
    by (simp add: upt_rec [of 0] map_Suc_upt [symmetric] del: upt_Suc) 
  have upd: "?kv1(rateKey ip \<mapsto> \<lparr>kv_value = c + 1 + int (length ts), kv_expiry = Some e\<rparr>) =
      kv(rateKey ip \<mapsto> \<lparr>kv_value = c + int (length (t # ts)), kv_expiry = Some e\<rparr>)"
    by (simp add: add_ac)
  have "checks (t # ts) ip kv =
      (\<lparr>allowed = True, remaining = 49 - c\<rparr> #
       map (\<lambda>i. \<lparr>allowed = True, remaining = 49 - (c + 1) - int i\<rparr>) [0..<length ts],
       ?kv1(rateKey ip \<mapsto> \<lparr>kv_value = c + 1 + int (length ts), kv_expiry = Some e\<rparr>))"
    by (simp add: step rest)
  then show ?case
    by (simp only: m upd)
qed


text \<open>
  Claim C3.  A fresh address (no live counter) makes 51 requests, the first at \<open>t0\<close> and
  the others inside the window that the first one opens: the first 50 are allowed, the
  k-th with \<open>remaining = 50 - k\<close> (so the 50th with 0), and the 51st is refused.  The next
  request at or after the end of the window is allowed with \<open>remaining = 49\<close>.
\<close>

theorem checkRateLimit_boundary:
  assumes fresh: "kv_get kv t0 (rateKey ip) = None"
    and len: "length ts = 49"
    and window: "\<forall>t \<in> set (ts @ [t51]). t < t0 + RATE_LIMIT_WINDOW"
    and later: "t0 + RATE_LIMIT_WINDOW \<le> t'"
  shows "fst (checks (t0 # ts @ [t51, t']) ip kv) =
     map (\<lambda>i. \<lparr>allowed = True, remaining = 49 - int i\<rparr>) [0..<50]
     @ [\<lparr>allowed = False, remaining = 0\<rparr>, \<lparr>allowed = True, remaining = 49\<rparr>]"
proof -
  let ?k = "rateKey ip"
  let ?e = "t0 + RATE_LIMIT_WINDOW"
  let ?kv1 = "kv(?k \<mapsto> \<lparr>kv_value = 1, kv_expiry = Some ?e\<rparr>)"
  let ?kv50 = "kv(?k \<mapsto> \<lparr>kv_value = 50, kv_expiry = Some ?e\<rparr>)"
  have first: "checkRateLimit NoFault t0 ip kv = (\<lparr>allowed = True, remaining = 49\<rparr>, ?kv1)"
    using fresh by (rule checkRateLimit_fresh)
  have "checks ts ip ?kv1 =
     (map (\<lambda>i. \<lparr>allowed = True, remaining = 49 - 1 - int i\<rparr>) [0..<length ts],
      ?kv1(?k \<mapsto> \<lparr>kv_value = 1 + int (length ts), kv_expiry = Some ?e\<rparr>))"
    using window len by (intro checks_in_window) auto
  then have mid: "checks ts ip ?kv1 =
     (map (\<lambda>i. \<lparr>allowed = True, remaining = 48 - int i\<rparr>) [0..<49], ?kv50)"
    by (simp add: len)
  have get50: "kv_get ?kv50 t51 ?k = Some 50"
    using window len by (simp add: kv_get_def kv_live_def)
  have refused: "checkRateLimit NoFault t51 ip ?kv50 = (\<lparr>allowed = False, remaining = 0\<rparr>, ?kv50)"
    using get50 by (rule checkRateLimit_refused) (simp_all add: RATE_LIMIT_MAX_def)
  have expired: "kv_get ?kv50 t' ?k = None"
    using later by (simp add: kv_get_def kv_live_def)
  have again: "checkRateLimit NoFault t' ip ?kv50 =
      (\<lparr>allowed = True, remaining = 49\<rparr>,
       ?kv50(?k \<mapsto> \<lparr>kv_value = 1, kv_expiry = Some (t' + RATE_LIMIT_WINDOW)\<rparr>))"
    using expired by (rule checkRateLimit_fresh)
  have tail: "fst (checks [t51, t'] ip ?kv50) =
      [\<lparr>allowed = False, remaining = 0\<rparr>, \<lparr>allowed = True, remaining = 49\<rparr>]"
    by (simp add: refused again)
  have run: "fst (checks (ts @ [t51, t']) ip ?kv1) =
      map (\<lambda>i. \<lparr>allowed = True, remaining = 48 - int i\<rparr>) [0..<49]
      @ [\<lparr>allowed = False, remaining = 0\<rparr>, \<lparr>allowed = True, remaining = 49\<rparr>]"
    using tail by (simp add: checks_append mid split: prod.splits)
  have m: "map (\<lambda>i. \<lparr>allowed = True, remaining = 49 - int i\<rparr>) [0..<50] =
      \<lparr>allowed = True, remaining = 49\<rparr> #
      map (\<lambda>i. \<lparr>allowed = True, remaining = 48 - int i\<rparr>) [0..<49]"
  proof -
    have e: "[Suc 0..<50] = map Suc [0..<49]"
      using map_Suc_upt [of 0 49] by simp
    have "[0..<50] = 0 # map Suc [0..<49]"
      by (subst upt_rec) (simp add: e)
    then show ?thesis
      by (simp only: list.map map_map o_def) simp
  qed
  have "fst (checks (t0 # ts @ [t51, t']) ip kv) =
      \<lparr>allowed = True, remaining = 49\<rparr> # fst (checks (ts @ [t51, t']) ip ?kv1)"
    by (simp add: first split: prod.splits)
  then show ?thesis by (simp only: run m append_Cons)
qed

theorem checkRateLimit_boundary_witness:
  "kv_get Map.empty 1000 (rateKey ''203.0.113.7'') = None
   \<and> length (replicate 49 (2000::nat)) = 49
   \<and> list_all (\<lambda>t. t < 1000 + RATE_LIMIT_WINDOW) (replicate 49 2000 @ [3000])
   \<and> 1000 + RATE_LIMIT_WINDOW \<le> 87400
   \<and> fst (checks (1000 # replicate 49 2000 @ [3000, 87400]) ''203.0.113.7'' Map.empty) =
       map (\<lambda>i. \<lparr>allowed = True, remaining = 49 - int i\<rparr>) [0..<50]
       @ [\<lparr>allowed = False, remaining = 0\<rparr>, \<lparr>allowed = True, remaining = 49\<rparr>]"
proof -
  have h1: "kv_get Map.empty 1000 (rateKey ''203.0.113.7'') = None"
    by (simp add: kv_get_def kv_live_def)
  have h2: "length (replicate 49 (2000::nat)) = 49"
    by simp
  have h3: "\<forall>t \<in> set (replicate 49 2000 @ [3000]). t < 1000 + RATE_LIMIT_WINDOW"
    by (simp add: RATE_LIMIT_WINDOW_def)
  have h4: "1000 + RATE_LIMIT_WINDOW \<le> 87400"
    by (simp add: RATE_LIMIT_WINDOW_def)
  have h3': "list_all (\<lambda>t. t < 1000 + RATE_LIMIT_WINDOW) (replicate 49 2000 @ [3000])"
    using h3 by (simp only: list_all_iff)
  from checkRateLimit_boundary [OF h1 h2 h3 h4] h1 h2 h3' h4 show ?thesis by blast
qed

text \<open>
  Claim C10.  When the live counter of an address has reached the ceiling and the store
  can be read, the check refuses with \<open>remaining = 0\<close> and returns the store as it was:
  the counter and its expiry are not touched, whatever else would have failed.
\<close>

theorem checkRateLimit_refusal_frame:
  assumes "kv_get kv now (rateKey ip) = Some c" and "RATE_LIMIT_MAX \<le> c" and "fault \<noteq> GetFails"
  shows "checkRateLimit fault now ip kv = (\<lparr>allowed = False, remaining = 0\<rparr>, kv)"
  using assms by (rule checkRateLimit_refused)

theorem checkRateLimit_refusal_frame_witness:
  "kv_get [rateKey ''203.0.113.7'' \<mapsto> \<lparr>kv_value = 50, kv_expiry = Some 90000\<rparr>] 5000
      (rateKey ''203.0.113.7'') = Some 50
   \<and> RATE_LIMIT_MAX \<le> 50 \<and> NoFault \<noteq> GetFails
   \<and> checkRateLimit NoFault 5000 ''203.0.113.7''
        [rateKey ''203.0.113.7'' \<mapsto> \<lparr>kv_value = 50, kv_expiry = Some 90000\<rparr>] =
      (\<lparr>allowed = False, remaining = 0\<rparr>,
       [rateKey ''203.0.113.7'' \<mapsto> \<lparr>kv_value = 50, kv_expiry = Some 90000\<rparr>])"
proof -
  have h1: "kv_get [rateKey ''203.0.113.7'' \<mapsto> \<lparr>kv_value = 50, kv_expiry = Some 90000\<rparr>] 5000
      (rateKey ''203.0.113.7'') = Some 50"
    by (simp add: kv_get_def kv_live_def)
  have h2: "RATE_LIMIT_MAX \<le> 50"
    by (simp add: RATE_LIMIT_MAX_def)
  have h3: "NoFault \<noteq> GetFails"
    by simp
  from checkRateLimit_refusal_frame [OF h1 h2 h3] h1 h2 h3 show ?thesis by blast
qed

subsection \<open>The chat client and the conversation history\<close>

lemma call_history [simp]: "conversationHistory (call c sh) = conversationHistory sh"
  by (simp add: call_def)

lemma push_history [simp]: "conversationHistory (push m sh) = conversationHistory sh @ [m]"
  by (simp add: push_def)

lemma typeChunk_history [simp]: "conversationHistory (typeChunk chunk sh) = conversationHistory sh"
  by (induction chunk arbitrary: sh) simp_all

lemma readLoop_ending [simp]: "fst (readLoop chunks ending full sh) = ending"
  by (induction chunks arbitrary: full sh) simp_all

lemma readLoop_fullResponse [simp]:
  "fst (snd (readLoop chunks ending full sh)) = full @ concat chunks"
  by (induction chunks arbitrary: full sh) simp_all

lemma readLoop_history [simp]:
  "conversationHistory (snd (snd (readLoop chunks ending full sh))) = conversationHistory sh"
  by (induction chunks arbitrary: full sh) simp_all

lemma sendToPrometheus_success:
  assumes "response_ok status"
  shows "settled (sendToPrometheus (Response status (Some (chunks, StreamDone))) msg sh)"
    and "conversationHistory (promiseState
           (sendToPrometheus (Response status (Some (chunks, StreamDone))) msg sh)) =
         conversationHistory sh @ [\<lparr>role = ''user'', content = msg\<rparr>,
                                   \<lparr>role = ''assistant'', content = concat chunks\<rparr>]"
proof -
  let ?sh1 = "push \<lparr>role = ''user'', content = msg\<rparr> sh"
  obtain e full sh2 where r: "readLoop chunks StreamDone [] ?sh1 = (e, full, sh2)"
    by (cases "readLoop chunks StreamDone [] ?sh1") auto
  have e: "e = StreamDone"
    using readLoop_ending [of chunks StreamDone "[]" ?sh1] r by simp
  have f: "full = concat chunks"
    using readLoop_fullResponse [of chunks StreamDone "[]" ?sh1] r by simp
  have h: "conversationHistory sh2 = conversationHistory ?sh1"
    using readLoop_history [of chunks StreamDone "[]" ?sh1] r by simp
  show "settled (sendToPrometheus (Response status (Some (chunks, StreamDone))) msg sh)"
    using assms by (simp add: sendToPrometheus_def r e settled_def)
  show "conversationHistory (promiseState
           (sendToPrometheus (Response status (Some (chunks, StreamDone))) msg sh)) =
         conversationHistory sh @ [\<lparr>role = ''user'', content = msg\<rparr>,
                                   \<lparr>role = ''assistant'', content = concat chunks\<rparr>]"
    using assms h by (simp add: sendToPrometheus_def r e f promiseState_def)
qed

lemma sendToPrometheus_refused:
  assumes "\<not> response_ok status"
  shows "settled (sendToPrometheus (Response status body) msg sh)"
    and "conversationHistory (promiseState (sendToPrometheus (Response status body) msg sh)) =
         conversationHistory sh"
  using assms by (simp_all add: sendToPrometheus_def settled_def promiseState_def)

lemma sendToPrometheus_fetch_throws:
  "settled (sendToPrometheus FetchThrows msg sh)"
  "conversationHistory (promiseState (sendToPrometheus FetchThrows msg sh)) = conversationHistory sh"
  by (simp_all add: sendToPrometheus_def settled_def promiseState_def)

text \<open>
  Claim C2, as stated, fails: a response with a 2xx status and no readable body is a
  failed send, and it leaves one new entry (the user message), not zero; the user
  message is appended when the status arrives, before any of the stream is read.
\<close>

theorem sendToPrometheus_no_body_counterexample:
  "sendToPrometheus (Response 200 None) ''hi'' emptyShell =
     Resolved (emptyShell\<lparr>terminal := [Writeln ''The stream is broken...''],
                          conversationHistory := [\<lparr>role = ''user'', content = ''hi''\<rparr>]\<rparr>)
   \<and> conversationHistory (promiseState (sendToPrometheus (Response 200 None) ''hi'' emptyShell))
       \<noteq> conversationHistory emptyShell"
  by (simp add: sendToPrometheus_def response_ok_def emptyShell_def push_def call_def
      promiseState_def)

text \<open>
  Claim C2, amended.  A send that completes (2xx status, a body whose stream reports
  \<open>done\<close>) settles with exactly two new entries, the user message and then the
  assistant reply made of all chunks.  A send refused by status (any non-2xx status,
  429 among them) and a send whose \<open>fetch\<close> throws settle with no new entry.
\<close>

theorem sendToPrometheus_history:
  "(response_ok status \<longrightarrow>
      settled (sendToPrometheus (Response status (Some (chunks, StreamDone))) msg sh)
      \<and> conversationHistory (promiseState
           (sendToPrometheus (Response status (Some (chunks, StreamDone))) msg sh)) =
         conversationHistory sh @ [\<lparr>role = ''user'', content = msg\<rparr>,
                                   \<lparr>role = ''assistant'', content = concat chunks\<rparr>])
   \<and> (\<not> response_ok status' \<longrightarrow>
      settled (sendToPrometheus (Response status' body) msg sh)
      \<and> conversationHistory (promiseState (sendToPrometheus (Response status' body) msg sh)) =
         conversationHistory sh)
   \<and> settled (sendToPrometheus FetchThrows msg sh)
   \<and> conversationHistory (promiseState (sendToPrometheus FetchThrows msg sh)) =
       conversationHistory sh"
  using sendToPrometheus_success [of status chunks msg sh]
    sendToPrometheus_refused [of status' body msg sh]
    sendToPrometheus_fetch_throws [of msg sh]
  by blast

theorem sendToPrometheus_history_witness:
  "response_ok 200 \<and> \<not> response_ok 429
   \<and> conversationHistory (promiseState
        (sendToPrometheus (Response 200 (Some ([''fi'', ''re''], StreamDone))) ''hi'' emptyShell)) =
       [\<lparr>role = ''user'', content = ''hi''\<rparr>, \<lparr>role = ''assistant'', content = ''fire''\<rparr>]
   \<and> conversationHistory (promiseState (sendToPrometheus (Response 429 None) ''hi'' emptyShell)) = []"
proof -
  have ok: "response_ok 200" and no: "\<not> response_ok 429"
    by (simp_all add: response_ok_def)
  have e: "conversationHistory emptyShell = []"
    by (simp add: emptyShell_def)
  from sendToPrometheus_history [of 200 "[''fi'', ''re'']" "''hi''" emptyShell 429 None] ok no
  have "conversationHistory (promiseState
        (sendToPrometheus (Response 200 (Some ([''fi'', ''re''], StreamDone))) ''hi'' emptyShell)) =
       conversationHistory emptyShell
        @ [\<lparr>role = ''user'', content = ''hi''\<rparr>, \<lparr>role = ''assistant'', content = concat [''fi'', ''re'']\<rparr>]"
    and "conversationHistory (promiseState (sendToPrometheus (Response 429 None) ''hi'' emptyShell)) =
       conversationHistory emptyShell"
    by blast+
  then show ?thesis
    using ok no by (simp add: e)
qed

subsection \<open>Dispatch and failing handlers\<close>

text \<open>
  Claim C4, as stated, fails in its last part: the context that dispatch builds holds
  all tokens of the line, the command name first, not only the tokens that remain
  after it.  The handler \<open>throwArgs\<close> reports what it was given.
\<close>

theorem runCommand_context_counterexample:
  "runCommand [(''echo'', throwArgs)] FetchThrows ''echo hi'' emptyShell =
     Resolved (emptyShell\<lparr>terminal := [Writeln ''Error: echo,hi'', Write ''$ '']\<rparr>)
   \<and> runCommand [(''echo'', throwArgs)] FetchThrows ''echo hi'' emptyShell \<noteq>
     Resolved (emptyShell\<lparr>terminal := [Writeln ''Error: hi'', Write ''$ '']\<rparr>)"
  by (simp add: runCommand_def parse_eval lower_eval throwArgs_def errorMessage_def
      emptyShell_def call_def getPrompt_def Let_def)

text \<open>
  Claim C4, amended.  When the first token of the trimmed line names a registered
  command (looked up in lower case) and its handler, invoked with the context that
  carries the trimmed line and all its tokens (the command name first, then the
  remaining tokens) on the terminal of the current state, throws, then dispatch
  settles normally: after the handler's own effects it writes the single line
  \<open>Error: \<close> followed by the message, then the prompt, and nothing else changes.
\<close>

theorem runCommand_catches:
  assumes "parseArgs (trim line) = name # rest"
    and "map_of commandRegistry (toLowerCase name) = Some handler"
    and "handler \<lparr>command = trim line, args = name # rest\<rparr> sh = (Throws error, sh1)"
  shows "runCommand commandRegistry net line sh =
     Resolved (sh1\<lparr>terminal := terminal sh1 @ [Writeln (''Error: '' @ errorMessage error),
                                                Write getPrompt]\<rparr>)"
proof -
  have "trim line \<noteq> []"
    using assms(1) by auto
  then show ?thesis
    using assms by (simp add: runCommand_def call_def Let_def)
qed

theorem runCommand_catches_witness:
  "parseArgs (trim ''  Echo hi '') = ''Echo'' # [''hi'']
   \<and> map_of [(''echo'', throwArgs)] (toLowerCase ''Echo'') = Some throwArgs
   \<and> throwArgs \<lparr>command = trim ''  Echo hi '', args = ''Echo'' # [''hi'']\<rparr> emptyShell
       = (Throws (ErrorObject ''Echo,hi''), emptyShell)
   \<and> runCommand [(''echo'', throwArgs)] FetchThrows ''  Echo hi '' emptyShell =
       Resolved (emptyShell\<lparr>terminal := terminal emptyShell @
          [Writeln (''Error: '' @ errorMessage (ErrorObject ''Echo,hi'')), Write getPrompt]\<rparr>)"
proof -
  have h1: "parseArgs (trim ''  Echo hi '') = ''Echo'' # [''hi'']"
    by (simp add: parse_eval)
  have h2: "map_of [(''echo'', throwArgs)] (toLowerCase ''Echo'') = Some throwArgs"
    by (simp add: lower_eval)
  have h3: "throwArgs \<lparr>command = trim ''  Echo hi '', args = ''Echo'' # [''hi'']\<rparr> emptyShell
       = (Throws (ErrorObject ''Echo,hi''), emptyShell)"
    by (simp add: throwArgs_def)
  from runCommand_catches [OF h1 h2 h3] h1 h2 h3 show ?thesis by blast
qed

subsection \<open>Quitting and the saved buffer\<close>

lemma exitVim_saved:
  "vimSavedBuffer (snd (exitVim save msg (v, sh))) = (if save then lines v else vimSavedBuffer sh)"
  by (simp add: exitVim_def addVimEscapeToHistory_def push_def call_def Let_def
      split: option.splits)

lemma exitVim_resolved: "resolved (fst (exitVim save msg (v, sh)))"
  by (simp add: exitVim_def Let_def)

lemma startVim_lines:
  "vimSavedBuffer sh \<noteq> [] \<Longrightarrow> lines (fst (startVim sh)) = vimSavedBuffer sh"
  by (simp add: startVim_def drawVim_def Let_def)

text \<open>For every session: \<open>:q\<close> with unsaved changes is refused, the session stays open
  in normal mode with the warning, and neither the buffer nor the saved buffer
  changes.\<close>

lemma quit_refused_when_modified:
  assumes "mode v = Command" and "trim (commandBuffer v) = ''q'' \<or> trim (commandBuffer v) = ''quit''"
    and "modified v"
  shows "handleKey_vim ''Enter'' code Keydown (v, sh) =
     (v\<lparr>mode := Normal, commandBuffer := [],
        statusMessage := Some ''E37: No write since last change (add ! to override)''\<rparr>, sh)"
  using assms
  by (auto simp: handleKey_vim_def handleKey_command_def processCommand_def drawVim_def Let_def)

text \<open>For every session: \<open>:q!\<close> ends it and leaves the saved buffer as it was, whatever
  the buffer holds.\<close>

lemma forced_quit_discards:
  assumes "mode v = Command"
    and "trim (commandBuffer v) = ''q!'' \<or> trim (commandBuffer v) = ''quit!''"
  shows "resolved (fst (handleKey_vim ''Enter'' code Keydown (v, sh)))"
    and "vimSavedBuffer (snd (handleKey_vim ''Enter'' code Keydown (v, sh))) = vimSavedBuffer sh"
  using assms
  by (auto simp: handleKey_vim_def handleKey_command_def processCommand_def Let_def
      exitVim_saved exitVim_resolved)

text \<open>For every session: \<open>:w\<close> stores the buffer and clears the modified flag, and the
  session stays open.\<close>

lemma write_saves:
  assumes "mode v = Command"
    and "trim (commandBuffer v) = ''w'' \<or> trim (commandBuffer v) = ''write''"
  shows "vimSavedBuffer (snd (handleKey_vim ''Enter'' code Keydown (v, sh))) = lines v"
    and "\<not> modified (fst (handleKey_vim ''Enter'' code Keydown (v, sh)))"
    and "\<not> resolved (fst (handleKey_vim ''Enter'' code Keydown (v, sh))) = (\<not> resolved v)"
  using assms
  by (auto simp: handleKey_vim_def handleKey_command_def processCommand_def drawVim_def Let_def)

subsection \<open>The vim session\<close>

lemma rowInBuffer_start: "rowInBuffer (fst (startVim sh))"
  by (simp add: startVim_def rowInBuffer_def drawVim_def Let_def)

lemma rowInBuffer_arrow:
  assumes "rowInBuffer v"
  shows "rowInBuffer (handleArrowKey key v)"
proof -
  from assms have r: "cursorRow v < length (lines v)"
    by (simp add: rowInBuffer_def)
  then have "lines v \<noteq> []" and "cursorRow v - Suc 0 < length (lines v)"
    and "cursorRow v < length (lines v) - Suc 0 \<Longrightarrow> Suc (cursorRow v) < length (lines v)"
    by auto
  with r show ?thesis
    by (simp add: handleArrowKey_def rowInBuffer_def drawVim_def Let_def)
qed

lemma length_setLine [simp]: "i < length ls \<Longrightarrow> length (setLine ls i v) = length ls"
  by (simp add: setLine_def)

lemma length_spliceInsert [simp]: "length (spliceInsert ls i v) = Suc (length ls)"
  by (simp add: spliceInsert_def)

lemma length_spliceRemove [simp]:
  "i < length ls \<Longrightarrow> length (spliceRemove ls i) = length ls - 1"
  by (simp add: spliceRemove_def)

lemma rowInBuffer_normal:
  assumes "rowInBuffer v"
  shows "rowInBuffer (handleKey_normal key v)"
proof -
  from assms have r: "cursorRow v < length (lines v)"
    by (simp add: rowInBuffer_def)
  then have a: "Suc 0 < length (lines v) \<Longrightarrow> cursorRow v < length (lines v) - Suc 0
      \<or> length (lines v) - Suc 0 \<le> cursorRow v"
    and b: "Suc 0 < length (lines v) \<Longrightarrow> length (lines v) - Suc (Suc 0) < length (lines v) - Suc 0"
    by auto
  from assms have arrow: "cursorRow (handleArrowKey key v) < length (lines (handleArrowKey key v))"
    using rowInBuffer_arrow [of v key] by (simp add: rowInBuffer_def)
  show ?thesis
    using r a b arrow
    by (simp add: handleKey_normal_def rowInBuffer_def drawVim_def Let_def)
qed

lemma setLine_nonempty [simp]: "setLine ls i v \<noteq> []"
proof (cases "i < length ls")
  case True
  then have "length (setLine ls i v) = length ls" and "ls \<noteq> []"
    by (auto simp: setLine_def)
  then show ?thesis by auto
next
  case False
  then show ?thesis by (simp add: setLine_def)
qed

lemma rowInBuffer_insert:
  assumes "rowInBuffer v"
  shows "rowInBuffer (handleKey_insert key v)"
proof -
  from assms have r: "cursorRow v < length (lines v)"
    by (simp add: rowInBuffer_def)
  then have a: "cursorRow v - Suc 0 < length (lines v)"
    and b: "0 < cursorRow v \<Longrightarrow> cursorRow v - Suc 0 < length (lines v) - Suc 0"
    and c: "lines v \<noteq> []"
    by auto
  from assms have arrow: "cursorRow (handleArrowKey key v) < length (lines (handleArrowKey key v))"
    using rowInBuffer_arrow [of v key] by (simp add: rowInBuffer_def)
  show ?thesis
    using r a b c arrow
    by (simp add: handleKey_insert_def rowInBuffer_def drawVim_def Let_def)
qed

lemma exitVim_buffer [simp]:
  "lines (fst (exitVim save msg (v, sh))) = lines v"
  "cursorRow (fst (exitVim save msg (v, sh))) = cursorRow v"
  by (simp_all add: exitVim_def Let_def)

lemma processCommand_buffer [simp]:
  "lines (fst (snd (processCommand cmd (v, sh)))) = lines v"
  "cursorRow (fst (snd (processCommand cmd (v, sh)))) = cursorRow v"
  by (simp_all add: processCommand_def drawVim_def Let_def)

lemma rowInBuffer_command:
  "rowInBuffer v \<Longrightarrow> rowInBuffer (fst (handleKey_command key (v, sh)))"
  by (simp add: handleKey_command_def rowInBuffer_def drawVim_def)

lemma rowInBuffer_handleKey:
  "rowInBuffer v \<Longrightarrow> rowInBuffer (fst (handleKey_vim key code t (v, sh)))"
  by (simp add: handleKey_vim_def rowInBuffer_normal rowInBuffer_insert rowInBuffer_command)

lemma rowInBuffer_pressKey:
  "rowInBuffer (fst st) \<Longrightarrow> rowInBuffer (fst (pressKey key st))"
  by (cases st) (simp add: pressKey_def rowInBuffer_handleKey)

lemma rowInBuffer_pressKeys:
  "rowInBuffer (fst st) \<Longrightarrow> rowInBuffer (fst (pressKeys keys st))"
  by (induction keys arbitrary: st) (simp_all add: rowInBuffer_pressKey)

text \<open>
  Claim C5.  The saved buffer is the single empty line.  In a new session the keys
  \<open>i\<close>, \<open>x\<close>, Escape, \<open>:\<close>, \<open>q\<close>, Enter leave the session open in normal mode with
  the modified buffer \<open>["x"]\<close> and the warning E37 on the status line; the keys \<open>:\<close>,
  \<open>q\<close>, \<open>!\<close>, Enter then end the session (the key handler is released) without
  touching the saved buffer; a new session starts from the saved buffer, the single
  empty line, unmodified.
\<close>

theorem vim_quit_guard:
  "let sh = \<lparr>terminal = out, conversationHistory = hist, vimSavedBuffer = [[]]\<rparr>;
       s1 = pressKeys [''i'', ''x'', ''Escape'', '':'', ''q'', ''Enter''] (startVim sh);
       s2 = pressKeys ['':'', ''q'', ''!'', ''Enter''] s1;
       s3 = startVim (snd s2)
   in lines (fst s1) = [''x''] \<and> modified (fst s1) \<and> \<not> resolved (fst s1)
      \<and> mode (fst s1) = Normal
      \<and> statusMessage (fst s1) = Some ''E37: No write since last change (add ! to override)''
      \<and> vimSavedBuffer (snd s1) = [[]]
      \<and> resolved (fst s2)
      \<and> terminal (snd s2) = out @ [HideCursor, SetKeyHandler, ClearKeyHandler, ShowCursor,
            Write clearScreen, Clear, Writeln ''You escaped vim. Impressive.'', Writeln []]
      \<and> vimSavedBuffer (snd s2) = [[]]
      \<and> lines (fst s3) = [[]] \<and> \<not> modified (fst s3) \<and> mode (fst s3) = Normal
      \<and> \<not> resolved (fst s3)"
  by code_simp simp

theorem vim_quit_guard_witness:
  "lines (fst (pressKeys [''i'', ''x'', ''Escape'', '':'', ''q'', ''Enter''] (startVim emptyShell)))
     = [''x'']
   \<and> lines (fst (startVim (snd (pressKeys ['':'', ''q'', ''!'', ''Enter'']
        (pressKeys [''i'', ''x'', ''Escape'', '':'', ''q'', ''Enter''] (startVim emptyShell))))))
     = [[]]"
  using vim_quit_guard [of "[]" "[]"] by (simp only: Let_def emptyShell_def)

text \<open>
  Claim C9, as stated, fails where the cursor column equals the length of a non-empty
  line.  The keys below build the buffer \<open>["abc", "ab"]\<close> and move the cursor down from
  column 2 of the first row: the column stays 2, the length of \<open>"ab"\<close>.  Pressing \<open>x\<close>
  there deletes nothing and moves nothing.
\<close>

theorem vim_x_at_line_end_counterexample:
  "fst (pressKeys [''i'', ''a'', ''b'', ''c'', ''Enter'', ''a'', ''b'', ''Escape'', ''k'', ''l'', ''j'']
         (startVim emptyShell)) =
     \<lparr>mode = Normal, commandBuffer = [], lines = [''abc'', ''ab''], cursorRow = 1, cursorCol = 2,
      modified = True, statusMessage = None, resolved = False\<rparr>
   \<and> fst (pressKeys [''i'', ''a'', ''b'', ''c'', ''Enter'', ''a'', ''b'', ''Escape'', ''k'', ''l'', ''j'', ''x'']
         (startVim emptyShell)) =
     \<lparr>mode = Normal, commandBuffer = [], lines = [''abc'', ''ab''], cursorRow = 1, cursorCol = 2,
      modified = True, statusMessage = None, resolved = False\<rparr>"
  by code_simp

text \<open>
  Claim C9, amended.  In normal mode, with the cursor row in the buffer: when the cursor
  is on a character (its column is less than the length of its row), pressing \<open>x\<close>
  removes exactly that character from the row, marks the buffer modified and clamps the
  column to the last character of the shortened row (to 0 when the row became empty),
  and the row number, the mode and everything outside the session are unchanged; when
  the column is not less than the length of the row, pressing \<open>x\<close> changes nothing.
\<close>

theorem vim_x_deletes_under_cursor:
  assumes "mode v = Normal" and "cursorRow v < length (lines v)"
  shows "let row = lines v ! cursorRow v;
             row' = take (cursorCol v) row @ drop (Suc (cursorCol v)) row;
             (v', sh') = handleKey_vim ''x'' code Keydown (v, sh)
         in (cursorCol v < length row \<longrightarrow>
               lines v' = (lines v)[cursorRow v := row'] \<and> length row' = length row - 1
               \<and> cursorCol v' = min (cursorCol v) (length row' - 1)
               \<and> cursorRow v' = cursorRow v \<and> modified v' \<and> mode v' = Normal \<and> sh' = sh)
            \<and> (length row \<le> cursorCol v \<longrightarrow> v' = v \<and> sh' = sh)"
proof (cases "cursorCol v < length (lines v ! cursorRow v)")
  case True
  let ?row = "lines v ! cursorRow v"
  let ?row' = "take (cursorCol v) ?row @ drop (Suc (cursorCol v)) ?row"
  have len: "length ?row' = length ?row - 1"
    using True by simp
  have ne: "?row \<noteq> []"
    using True by auto
  have col: "(if length ?row' \<le> cursorCol v \<and> 0 < cursorCol v then cursorCol v - 1 else cursorCol v)
      = min (cursorCol v) (length ?row' - 1)"
    using True len by auto
  have "handleKey_normal ''x'' v =
      drawVim None (v\<lparr>lines := (lines v)[cursorRow v := ?row'], modified := True,
                      cursorCol := (if length ?row' \<le> cursorCol v \<and> 0 < cursorCol v
                                    then cursorCol v - 1 else cursorCol v)\<rparr>)"
    using assms(2) True ne
    by (simp add: handleKey_normal_def lineAt_def setLine_def Let_def del: length_append)
  then have "handleKey_normal ''x'' v =
      drawVim None (v\<lparr>lines := (lines v)[cursorRow v := ?row'], modified := True,
                      cursorCol := min (cursorCol v) (length ?row' - 1)\<rparr>)"
    by (simp only: col)
  then show ?thesis
    using assms(1) True len by (simp add: handleKey_vim_def drawVim_def Let_def)
next
  case False
  then have "handleKey_normal ''x'' v = v"
    using assms(2) by (simp add: handleKey_normal_def lineAt_def Let_def)
  then show ?thesis
    using assms(1) False by (simp add: handleKey_vim_def Let_def)
qed

theorem vim_x_deletes_under_cursor_witness:
  "lines (fst (handleKey_vim ''x'' 88 Keydown
     (\<lparr>mode = Normal, commandBuffer = [], lines = [''abc'', ''ab''], cursorRow = 1, cursorCol = 1,
       modified = False, statusMessage = None, resolved = False\<rparr>, emptyShell))) = [''abc'', ''a'']
   \<and> cursorCol (fst (handleKey_vim ''x'' 88 Keydown
     (\<lparr>mode = Normal, commandBuffer = [], lines = [''abc'', ''ab''], cursorRow = 1, cursorCol = 1,
       modified = False, statusMessage = None, resolved = False\<rparr>, emptyShell))) = 0
   \<and> fst (handleKey_vim ''x'' 88 Keydown
     (\<lparr>mode = Normal, commandBuffer = [], lines = [''abc'', ''ab''], cursorRow = 1, cursorCol = 2,
       modified = False, statusMessage = None, resolved = False\<rparr>, emptyShell)) =
     \<lparr>mode = Normal, commandBuffer = [], lines = [''abc'', ''ab''], cursorRow = 1, cursorCol = 2,
       modified = False, statusMessage = None, resolved = False\<rparr>"
proof -
  let ?v = "\<lparr>mode = Normal, commandBuffer = [], lines = [''abc'', ''ab''], cursorRow = 1,
     cursorCol = 1, modified = False, statusMessage = None, resolved = False\<rparr>"
  let ?w = "\<lparr>mode = Normal, commandBuffer = [], lines = [''abc'', ''ab''], cursorRow = 1,
     cursorCol = 2, modified = False, statusMessage = None, resolved = False\<rparr>"
  have v1: "mode ?v = Normal" and v2: "cursorRow ?v < length (lines ?v)"
    and w1: "mode ?w = Normal" and w2: "cursorRow ?w < length (lines ?w)"
    by simp_all
  from vim_x_deletes_under_cursor [OF v1 v2, of 88 emptyShell]
  have "lines (fst (handleKey_vim ''x'' 88 Keydown (?v, emptyShell))) = [''abc'', ''a'']"
    and "cursorCol (fst (handleKey_vim ''x'' 88 Keydown (?v, emptyShell))) = 0"
    by (simp_all add: Let_def split_beta)
  moreover from vim_x_deletes_under_cursor [OF w1 w2, of 88 emptyShell]
  have "fst (handleKey_vim ''x'' 88 Keydown (?w, emptyShell)) = ?w"
    by (simp add: Let_def split_beta)
  ultimately show ?thesis
    by (simp only: simp_thms)
qed

subsection \<open>Tab completion\<close>

declare shrinkPrefix.simps [simp del]

lemma sort_two_of_set:
  fixes xs :: "'a::linorder list"
  assumes "distinct xs" and "set xs = {x, y}" and "x < y"
  shows "sort xs = [x, y]"
proof -
  have a: "sorted (sort xs)" and b: "distinct (sort xs)" and e: "set (sort xs) = set [x, y]"
    using assms by simp_all
  have c: "sorted [x, y]" and d: "distinct [x, y]"
    using assms(3) by simp_all
  show ?thesis
    by (rule sorted_distinct_set_unique [OF a b c d e])
qed

lemma parseArgs_he: "parseArgs ''he'' = [''he'']"
  by (simp add: parse_eval)

lemma matching_he:
  assumes "distinct ks" and "set ks = {''help'', ''history'', ''hello''}"
  shows "sort (filter (\<lambda>cmdName. startsWith cmdName ''he'') ks) = [''hello'', ''help'']"
proof -
  let ?m = "filter (\<lambda>cmdName. startsWith cmdName ''he'') ks"
  have "set ?m = {k \<in> {''help'', ''history'', ''hello''}. startsWith k ''he''}"
    using assms(2) by simp
  also have "\<dots> = {''hello'', ''help''}"
    by (auto simp: startsWith_def)
  finally have s: "set ?m = {''hello'', ''help''}" .
  have d: "distinct ?m"
    using assms(1) by simp
  have l: "''hello'' < ''help''"
    by simp
  show ?thesis
    by (rule sort_two_of_set [OF d s l])
qed

lemma findCommonPrefix_hello_help: "findCommonPrefix [''hello'', ''help''] = ''hel''"
  by (simp add: findCommonPrefix_def shrinkPrefix.simps startsWith_def)

text \<open>
  Claim C1, as stated, fails in its second half.  With \<open>help\<close>, \<open>history\<close> and \<open>hello\<close>
  registered and \<open>he\<close> typed, the candidates are \<open>hello\<close> and \<open>help\<close>; their longest
  common prefix is \<open>hel\<close>, longer than what was typed, so Tab extends the line to
  \<open>hel\<close> and prints no listing.
\<close>

theorem handleTab_he_counterexample:
  "completions (getTabCompletions reg3 ''he'') = [''hello'', ''help'']
   \<and> currentLine (handleTab reg3 typedHe) = ''hel''
   \<and> xterm (handleTab reg3 typedHe) = [XWrite ''l'']
   \<and> currentLine (handleTab reg3 typedHe) \<noteq> currentLine typedHe"
  by code_simp

text \<open>
  Claim C1, amended.  For every registry whose names are exactly \<open>help\<close>, \<open>history\<close> and
  \<open>hello\<close>, in any order of registration, and the sole-token input \<open>he\<close>: completion
  offers exactly \<open>hello\<close>, \<open>help\<close>, in lexicographic order, with prefix \<open>he\<close>; and Tab,
  in a shell that accepts input, takes the extension path: it appends \<open>l\<close> to the line
  and writes \<open>l\<close> to the screen, nothing else.
\<close>

theorem handleTab_he:
  assumes "distinct (map fst commandRegistry)"
    and "set (map fst commandRegistry) = {''help'', ''history'', ''hello''}"
    and "bootComplete a" and "\<not> isCommandRunning a" and "currentLine a = ''he''"
  shows "getTabCompletions commandRegistry ''he'' =
           \<lparr>completions = [''hello'', ''help''], prefix = ''he'', isCommand = True\<rparr>
         \<and> handleTab commandRegistry a = xwrite ''l'' (a\<lparr>currentLine := ''hel''\<rparr>)"
proof -
  have low: "toLowerCase ''he'' = ''he''"
    by (simp add: lower_eval)
  have c: "getTabCompletions commandRegistry ''he'' =
           \<lparr>completions = [''hello'', ''help''], prefix = ''he'', isCommand = True\<rparr>"
    using matching_he [OF assms(1,2)]
    by (simp add: getTabCompletions_def parseArgs_he endsWith_def low Let_def)
  have "handleTab commandRegistry a = xwrite ''l'' (a\<lparr>currentLine := ''hel''\<rparr>)"
    using assms(3,4,5)
    by (simp add: handleTab_def c findCommonPrefix_hello_help Let_def)
  with c show ?thesis by simp
qed

theorem handleTab_he_witness:
  "distinct (map fst reg3) \<and> set (map fst reg3) = {''help'', ''history'', ''hello''}
   \<and> bootComplete typedHe \<and> \<not> isCommandRunning typedHe \<and> currentLine typedHe = ''he''
   \<and> handleTab reg3 typedHe = xwrite ''l'' (typedHe\<lparr>currentLine := ''hel''\<rparr>)"
proof -
  have r: "reg3 = [(''help'', ()), (''history'', ()), (''hello'', ())]"
    by (simp add: reg3_def registerCommand_def lower_eval)
  have h1: "distinct (map fst reg3)"
    by (simp add: r)
  have h2: "set (map fst reg3) = {''help'', ''history'', ''hello''}"
    by (simp add: r)
  have h3: "bootComplete typedHe" and h4: "\<not> isCommandRunning typedHe"
    and h5: "currentLine typedHe = ''he''"
    by (simp_all add: typedHe_def newAdapter_def)
  from handleTab_he [OF h1 h2 h3 h4 h5] h1 h2 h3 h4 h5 show ?thesis by blast
qed

subsection \<open>History navigation\<close>

lemma keyEvent_shell:
  "shellFocus a \<Longrightarrow> keyEvent commandRegistry event a = xtermKeyEvent commandRegistry event a"
  by (simp add: keyEvent_def shellFocus_def)

lemma arrowUp_shell:
  assumes "shellFocus a"
  shows "keyEvent commandRegistry arrowUp a = navigateHistoryUp a"
proof -
  have "customKeyEventHandler commandRegistry arrowUp a =
      map_sum id (Pair False) (navigateHistoryUp a)"
    using assms
    by (simp add: customKeyEventHandler_def handleArrowUp_def shellFocus_def arrowUp_def keyDown_def)
  then show ?thesis
    using assms by (cases "navigateHistoryUp a") (simp_all add: keyEvent_shell xtermKeyEvent_def)
qed

lemma arrowDown_shell:
  assumes "shellFocus a"
  shows "keyEvent commandRegistry arrowDown a = navigateHistoryDown a"
proof -
  have "customKeyEventHandler commandRegistry arrowDown a =
      map_sum id (Pair False) (navigateHistoryDown a)"
    using assms
    by (simp add: customKeyEventHandler_def handleArrowDown_def shellFocus_def arrowDown_def
        keyDown_def)
  then show ?thesis
    using assms by (cases "navigateHistoryDown a") (simp_all add: keyEvent_shell xtermKeyEvent_def)
qed

lemma replaceCurrentLine_fields [simp]:
  "currentLine (replaceCurrentLine l a) = l"
  "commandHistory (replaceCurrentLine l a) = commandHistory a"
  "historyIndex (replaceCurrentLine l a) = historyIndex a"
  "savedCurrentLine (replaceCurrentLine l a) = savedCurrentLine a"
  "shellFocus (replaceCurrentLine l a) = shellFocus a"
  by (simp_all add: replaceCurrentLine_def xwrite_def shellFocus_def Let_def)

lemma shellFocus_updates [simp]:
  "shellFocus (a\<lparr>savedCurrentLine := s\<rparr>) = shellFocus a"
  "shellFocus (a\<lparr>historyIndex := i\<rparr>) = shellFocus a"
  "shellFocus (a\<lparr>currentLine := l\<rparr>) = shellFocus a"
  by (simp_all add: shellFocus_def)

lemma navigateHistoryUp_browsing:
  assumes "browsing a h d i" and "h \<noteq> []"
  shows "\<exists>a'. navigateHistoryUp a = Inr a' \<and> browsing a' h d (min (i + 1) (int (length h) - 1))"
proof (cases "i = -1")
  case True
  with assms show ?thesis
    by (simp add: navigateHistoryUp_def browsing_def historyEntry_def Let_def)
next
  case False
  with assms have "0 \<le> i" and "i < int (length h)"
    by (simp_all add: browsing_def)
  with assms False show ?thesis
    by (simp add: navigateHistoryUp_def browsing_def historyEntry_def Let_def min_def)
qed

lemma navigateHistoryUp_empty:
  assumes "browsing a [] d i"
  shows "navigateHistoryUp a = Inr a \<and> i = -1"
  using assms by (simp add: navigateHistoryUp_def browsing_def split: if_splits)

lemma navigateHistoryDown_browsing:
  assumes "browsing a h d i"
  shows "\<exists>a'. navigateHistoryDown a = Inr a' \<and> browsing a' h d (max (i - 1) (- 1))"
proof (cases "i = -1")
  case True
  with assms show ?thesis
    by (simp add: navigateHistoryDown_def browsing_def)
next
  case False
  with assms have "0 \<le> i" and "i < int (length h)"
    by (simp_all add: browsing_def)
  with assms False show ?thesis
    by (simp add: navigateHistoryDown_def browsing_def historyEntry_def Let_def max_def)
qed

lemma keyEvents_append:
  "keyEvents commandRegistry (xs @ ys) a =
     (case keyEvents commandRegistry xs a of
        Inl f \<Rightarrow> Inl f
      | Inr a1 \<Rightarrow> keyEvents commandRegistry ys a1)"
  by (induction xs arbitrary: a) (simp_all split: sum.splits)

lemma browsing_index_range:
  "browsing a h d i \<Longrightarrow> - 1 \<le> i \<and> i \<le> int (length h) - 1"
  by (simp add: browsing_def split: if_splits)

lemma arrowUps_browsing:
  assumes "browsing a h d i" and "h \<noteq> []"
  shows "\<exists>a'. keyEvents commandRegistry (replicate n arrowUp) a = Inr a'
           \<and> browsing a' h d (min (i + int n) (int (length h) - 1))"
  using assms(1)
proof (induction n arbitrary: a i)
  case 0
  have "min (i + int 0) (int (length h) - 1) = i"
    using browsing_index_range [OF 0] by auto
  with 0 show ?case by simp
next
  case (Suc n)
  from Suc.prems have focus: "shellFocus a"
    by (simp add: browsing_def)
  obtain a1 where step: "navigateHistoryUp a = Inr a1"
    and b1: "browsing a1 h d (min (i + 1) (int (length h) - 1))"
    using navigateHistoryUp_browsing [OF Suc.prems assms(2)] by blast
  obtain a' where rest: "keyEvents commandRegistry (replicate n arrowUp) a1 = Inr a'"
    and b': "browsing a' h d (min (min (i + 1) (int (length h) - 1) + int n) (int (length h) - 1))"
    using Suc.IH [OF b1] by blast
  have "min (min (i + 1) (int (length h) - 1) + int n) (int (length h) - 1) =
      min (i + int (Suc n)) (int (length h) - 1)"
    by (simp add: min_def)
  with b' have "browsing a' h d (min (i + int (Suc n)) (int (length h) - 1))"
    by simp
  moreover have "keyEvents commandRegistry (replicate (Suc n) arrowUp) a = Inr a'"
    using rest by (simp add: arrowUp_shell [OF focus] step)
  ultimately show ?case by blast
qed

lemma arrowUps_empty:
  assumes "browsing a [] d i"
  shows "keyEvents commandRegistry (replicate n arrowUp) a = Inr a"
proof (induction n)
  case 0
  show ?case by simp
next
  case (Suc n)
  from assms have focus: "shellFocus a"
    by (simp add: browsing_def)
  show ?case
    using navigateHistoryUp_empty [OF assms] Suc
    by (simp add: arrowUp_shell [OF focus])
qed

lemma arrowDowns_browsing:
  assumes "browsing a h d i"
  shows "\<exists>a'. keyEvents commandRegistry (replicate n arrowDown) a = Inr a'
           \<and> browsing a' h d (max (i - int n) (- 1))"
  using assms
proof (induction n arbitrary: a i)
  case 0
  have "max (i - int 0) (- 1) = i"
    using browsing_index_range [OF 0] by auto
  with 0 show ?case by simp
next
  case (Suc n)
  from Suc.prems have focus: "shellFocus a"
    by (simp add: browsing_def)
  obtain a1 where step: "navigateHistoryDown a = Inr a1"
    and b1: "browsing a1 h d (max (i - 1) (- 1))"
    using navigateHistoryDown_browsing [OF Suc.prems] by blast
  obtain a' where rest: "keyEvents commandRegistry (replicate n arrowDown) a1 = Inr a'"
    and b': "browsing a' h d (max (max (i - 1) (- 1) - int n) (- 1))"
    using Suc.IH [OF b1] by blast
  have "max (max (i - 1) (- 1) - int n) (- 1) = max (i - int (Suc n)) (- 1)"
    by (simp add: max_def)
  with b' have "browsing a' h d (max (i - int (Suc n)) (- 1))"
    by simp
  moreover have "keyEvents commandRegistry (replicate (Suc n) arrowDown) a = Inr a'"
    using rest by (simp add: arrowDown_shell [OF focus] step)
  ultimately show ?case by blast
qed

lemma history_round_trip_any:
  assumes "shellFocus a" and "historyIndex a = - 1"
  shows "\<exists>a'. keyEvents commandRegistry (replicate n arrowUp @ replicate n arrowDown) a = Inr a'
           \<and> shellFocus a' \<and> currentLine a' = currentLine a
           \<and> commandHistory a' = commandHistory a \<and> historyIndex a' = - 1"
proof -
  let ?h = "commandHistory a" and ?d = "currentLine a"
  have b: "browsing a ?h ?d (- 1)"
    using assms by (simp add: browsing_def)
  obtain a1 j where ups: "keyEvents commandRegistry (replicate n arrowUp) a = Inr a1"
    and b1: "browsing a1 ?h ?d j" and j: "j \<le> int n - 1"
  proof (cases "?h = []")
    case True
    with b have "keyEvents commandRegistry (replicate n arrowUp) a = Inr a"
      using arrowUps_empty [of a ?d "- 1"] by simp
    with b show ?thesis
      using that [of a "- 1"] by simp
  next
    case False
    from arrowUps_browsing [OF b False, of commandRegistry n] obtain a1 where
      "keyEvents commandRegistry (replicate n arrowUp) a = Inr a1"
      "browsing a1 ?h ?d (min (- 1 + int n) (int (length ?h) - 1))"
      by blast
    then show ?thesis
      using that [of a1 "min (- 1 + int n) (int (length ?h) - 1)"] by simp
  qed
  from arrowDowns_browsing [OF b1, of commandRegistry n] obtain a2 where
    downs: "keyEvents commandRegistry (replicate n arrowDown) a1 = Inr a2"
    and b2: "browsing a2 ?h ?d (max (j - int n) (- 1))"
    by blast
  from j have "max (j - int n) (- 1) = - 1"
    by simp
  with b2 have "browsing a2 ?h ?d (- 1)"
    by simp
  then have "shellFocus a2 \<and> currentLine a2 = ?d \<and> commandHistory a2 = ?h \<and> historyIndex a2 = - 1"
    by (simp add: browsing_def)
  moreover have "keyEvents commandRegistry (replicate n arrowUp @ replicate n arrowDown) a = Inr a2"
    by (simp add: keyEvents_append ups downs)
  ultimately show ?thesis by blast
qed

text \<open>
  Claim C7.  The shell has the focus, the history is \<open>a\<close>, \<open>b\<close>, \<open>c\<close> (oldest first),
  the editor is not browsing and \<open>d\<close> is typed.  Three Arrow-Up key presses followed
  by three Arrow-Down key presses are all handled without a fault and leave the current
  input \<open>d\<close>, the history unchanged and the editor not browsing.
\<close>

theorem history_round_trip:
  assumes "shellFocus a" and "commandHistory a = [''a'', ''b'', ''c'']"
    and "historyIndex a = - 1" and "currentLine a = ''d''"
  shows "case keyEvents commandRegistry
                [arrowUp, arrowUp, arrowUp, arrowDown, arrowDown, arrowDown] a of
           Inl f \<Rightarrow> False
         | Inr a' \<Rightarrow> currentLine a' = ''d'' \<and> commandHistory a' = [''a'', ''b'', ''c'']
                     \<and> historyIndex a' = - 1"
proof -
  have "replicate 3 arrowUp @ replicate 3 arrowDown =
      [arrowUp, arrowUp, arrowUp, arrowDown, arrowDown, arrowDown]"
    by (simp add: numeral_3_eq_3)
  with history_round_trip_any [OF assms(1,3), of commandRegistry 3] assms(2,4)
  show ?thesis by auto
qed

theorem history_round_trip_witness:
  "shellFocus typedD \<and> commandHistory typedD = [''a'', ''b'', ''c'']
   \<and> historyIndex typedD = - 1 \<and> currentLine typedD = ''d''
   \<and> map_sum id currentLine
        (keyEvents reg3 [arrowUp, arrowUp, arrowUp, arrowDown, arrowDown, arrowDown] typedD)
      = Inr ''d''"
proof -
  have h1: "shellFocus typedD" and h2: "commandHistory typedD = [''a'', ''b'', ''c'']"
    and h3: "historyIndex typedD = - 1" and h4: "currentLine typedD = ''d''"
    by (simp_all add: typedD_def newAdapter_def shellFocus_def)
  from history_round_trip [OF h1 h2 h3 h4, of reg3]
  have "map_sum id currentLine
        (keyEvents reg3 [arrowUp, arrowUp, arrowUp, arrowDown, arrowDown, arrowDown] typedD)
      = Inr ''d''"
    by (cases "keyEvents reg3 [arrowUp, arrowUp, arrowUp, arrowDown, arrowDown, arrowDown] typedD")
       simp_all
  with h1 h2 h3 h4 show ?thesis by blast
qed

subsection \<open>Capture and release of the keyboard\<close>

lemma captureWellFormed_new: "captureWellFormed (newAdapter rows isMobile)"
  by (simp add: captureWellFormed_def newAdapter_def)

lemma setKeyHandler_wellFormed:
  assumes "captureWellFormed a"
  shows "setKeyHandler handler a =
     a\<lparr>gameKeyHandler := Some handler, boundGameKeyboardHandler := Some (nextListener a),
       nextListener := nextListener a + 1,
       documentListeners := [(Keydown, nextListener a), (Keyup, nextListener a)]\<rparr>"
proof (cases "boundGameKeyboardHandler a")
  case None
  with assms have "documentListeners a = []"
    by (simp add: captureWellFormed_def)
  with None show ?thesis
    by (simp add: setKeyHandler_def addEventListener_def Let_def)
next
  case (Some old)
  with assms have "documentListeners a = [(Keydown, old), (Keyup, old)]"
    by (simp add: captureWellFormed_def)
  with Some show ?thesis
    by (simp add: setKeyHandler_def addEventListener_def removeEventListener_def Let_def)
qed

lemma clearKeyHandler_wellFormed:
  assumes "captureWellFormed a"
  shows "clearKeyHandler a =
     a\<lparr>gameKeyHandler := None, boundGameKeyboardHandler := None, documentListeners := []\<rparr>"
proof (cases "boundGameKeyboardHandler a")
  case None
  with assms have "documentListeners a = []"
    by (simp add: captureWellFormed_def)
  with None show ?thesis
    by (simp add: clearKeyHandler_def Let_def)
next
  case (Some old)
  with assms have "documentListeners a = [(Keydown, old), (Keyup, old)]"
    by (simp add: captureWellFormed_def)
  with Some show ?thesis
    by (simp add: clearKeyHandler_def removeEventListener_def Let_def)
qed

lemma captureWellFormed_setKeyHandler:
  "captureWellFormed a \<Longrightarrow> captureWellFormed (setKeyHandler handler a)"
  by (simp add: setKeyHandler_wellFormed) (simp add: captureWellFormed_def)

lemma captureWellFormed_clearKeyHandler:
  "captureWellFormed a \<Longrightarrow> captureWellFormed (clearKeyHandler a)"
  by (simp add: clearKeyHandler_wellFormed) (simp add: captureWellFormed_def)

lemma keyEvent_captured:
  assumes "captureWellFormed a" and "gameKeyHandler a = Some h"
  shows "keyEvent commandRegistry event a =
     Inr (if reachesHandler event then a\<lparr>delivered := delivered a @ [(h, event)]\<rparr> else a)"
proof -
  from assms obtain l where "documentListeners a = [(Keydown, l), (Keyup, l)]"
    by (cases "boundGameKeyboardHandler a") (auto simp: captureWellFormed_def)
  with assms(2) show ?thesis
    by (cases "ev_type event")
       (simp_all add: keyEvent_def boundListener_def reachesHandler_def)
qed

lemma keyEvents_captured:
  assumes "captureWellFormed a" and "gameKeyHandler a = Some h"
  shows "keyEvents commandRegistry events a =
     Inr (a\<lparr>delivered := delivered a @ map (Pair h) (filter reachesHandler events)\<rparr>)"
  using assms
proof (induction events arbitrary: a)
  case Nil
  show ?case by simp
next
  case (Cons event events)
  let ?a1 = "if reachesHandler event then a\<lparr>delivered := delivered a @ [(h, event)]\<rparr> else a"
  have step: "keyEvent commandRegistry event a = Inr ?a1"
    using Cons.prems by (rule keyEvent_captured)
  have wf: "captureWellFormed ?a1" and gh: "gameKeyHandler ?a1 = Some h"
    using Cons.prems by (simp_all add: captureWellFormed_def)
  show ?case
    by (simp add: step Cons.IH [OF wf gh])
qed

lemma keyEvent_released:
  assumes "gameKeyHandler a = None" and "documentListeners a = []"
  shows "keyEvent commandRegistry event a = xtermKeyEvent commandRegistry event a"
  using assms by (simp add: keyEvent_def)

lemma printableKey_shell:
  assumes "shellFocus a" and "code \<notin> set specialCodes"
  shows "keyEvent commandRegistry (printableKey c code) a =
     Inr (xwrite [c] (a\<lparr>currentLine := currentLine a @ [c]\<rparr>))"
proof -
  have custom: "customKeyEventHandler commandRegistry (printableKey c code) a = Inr (True, a)"
    using assms
    by (simp add: customKeyEventHandler_def printableKey_def keyDown_def shellFocus_def
        specialCodes_def)
  have key: "onKey [c] (printableKey c code) a = xwrite [c] (a\<lparr>currentLine := currentLine a @ [c]\<rparr>)"
    using assms
    by (simp add: onKey_def handleKey_def printableKey_def keyDown_def shellFocus_def
        specialCodes_def Let_def)
  have data: "onData [c] (xwrite [c] (a\<lparr>currentLine := currentLine a @ [c]\<rparr>)) =
      xwrite [c] (a\<lparr>currentLine := currentLine a @ [c]\<rparr>)"
    by (simp add: onData_def)
  have "xtermKeyEvent commandRegistry (printableKey c code) a =
      Inr (onData [c] (onKey [c] (printableKey c code) a))"
    by (simp add: xtermKeyEvent_def custom) (simp add: printableKey_def keyDown_def)
  then show ?thesis
    using assms(1) by (simp add: keyEvent_def shellFocus_def key data)
qed

lemma tabKey_shell:
  assumes "shellFocus a"
  shows "keyEvent commandRegistry tabKey a = Inr (handleTab commandRegistry a)"
proof -
  have "customKeyEventHandler commandRegistry tabKey a = Inr (False, handleTab commandRegistry a)"
    using assms
    by (simp add: customKeyEventHandler_def shellFocus_def tabKey_def keyDown_def)
  then show ?thesis
    using assms by (simp add: keyEvent_shell xtermKeyEvent_def)
qed

text \<open>Released, but the command still runs: the keys of the line editor change nothing.\<close>

lemma keys_dropped_while_running:
  assumes "gameKeyHandler a = None" and "documentListeners a = []" and "isCommandRunning a"
  shows "keyEvent commandRegistry arrowUp a = Inr a"
    and "keyEvent commandRegistry arrowDown a = Inr a"
    and "keyEvent commandRegistry tabKey a = Inr a"
    and "code \<notin> set specialCodes \<Longrightarrow> keyEvent commandRegistry (printableKey c code) a = Inr a"
proof -
  have rel: "\<And>event. keyEvent commandRegistry event a = xtermKeyEvent commandRegistry event a"
    using assms(1,2) by (rule keyEvent_released)
  have up: "customKeyEventHandler commandRegistry arrowUp a = Inr (False, a)"
    using assms
    by (simp add: customKeyEventHandler_def handleArrowUp_def arrowUp_def keyDown_def)
  have down: "customKeyEventHandler commandRegistry arrowDown a = Inr (False, a)"
    using assms
    by (simp add: customKeyEventHandler_def handleArrowDown_def arrowDown_def keyDown_def)
  have tb: "customKeyEventHandler commandRegistry tabKey a = Inr (False, a)"
    using assms
    by (simp add: customKeyEventHandler_def handleTab_def tabKey_def keyDown_def)
  show "keyEvent commandRegistry arrowUp a = Inr a"
    by (simp add: rel xtermKeyEvent_def up)
  show "keyEvent commandRegistry arrowDown a = Inr a"
    by (simp add: rel xtermKeyEvent_def down)
  show "keyEvent commandRegistry tabKey a = Inr a"
    by (simp add: rel xtermKeyEvent_def tb)
  show "keyEvent commandRegistry (printableKey c code) a = Inr a" if "code \<notin> set specialCodes"
  proof (cases "mobile a")
    case True
    then have "customKeyEventHandler commandRegistry (printableKey c code) a = Inr (False, a)"
      by (simp add: customKeyEventHandler_def)
    then show ?thesis
      by (simp add: rel xtermKeyEvent_def)
  next
    case False
    have custom: "customKeyEventHandler commandRegistry (printableKey c code) a = Inr (True, a)"
      using assms(1) False that
      by (simp add: customKeyEventHandler_def printableKey_def keyDown_def specialCodes_def)
    have key: "onKey [c] (printableKey c code) a = a"
      using assms(1,3) by (simp add: onKey_def handleKey_def Let_def)
    have data: "onData [c] a = a"
      by (simp add: onData_def)
    have "xtermKeyEvent commandRegistry (printableKey c code) a =
        Inr (onData [c] (onKey [c] (printableKey c code) a))"
      by (simp add: xtermKeyEvent_def custom) (simp add: printableKey_def keyDown_def)
    then show ?thesis
      by (simp add: rel key data)
  qed
qed

text \<open>
  Claim C6.  From any state in which the capture is well formed (the constructor's state
  is, and capture, release and key events keep it so), capturing \<open>old\<close> and then \<open>new\<close>
  leaves one captured handler, \<open>new\<close>, and one listener per event type on \<open>document\<close>.
  Every key event that follows is delivered to \<open>new\<close> alone (repeated key-downs to
  nobody), without a fault, and none reaches the line editor: its line, history, history
  index, saved line, screen writes and launched commands stay as they were.  After
  release no handler is captured and no listener is left, and every key event goes to
  the shell's own key handlers.  A capture is made by a running command, and the
  sub-applications resolve that command's promise in the turn in which they release,
  so \<open>executeCommand\<close>'s \<open>finally\<close> block (\<open>commandSettled\<close>) runs before the next key
  event (in vim, \<open>exitVim\<close> calls \<open>clearKeyHandler\<close> and \<open>resolve\<close> together).  In the state it leaves, whether or not a command was running at the capture,
  if the boot prompt is over and the device is not a mobile one, a printable key is
  appended to the current line and echoed, Arrow-Up and Arrow-Down navigate the history
  and Tab completes.  Only where the command is still running after the release does
  the command-running gate keep dropping these keys.
\<close>

theorem capture_replace_release:
  assumes "captureWellFormed a"
  shows "let a2 = setKeyHandler new (setKeyHandler old a) in
     gameKeyHandler a2 = Some new
     \<and> map fst (documentListeners a2) = [Keydown, Keyup]
     \<and> (case keyEvents commandRegistry events a2 of
          Inl f \<Rightarrow> False
        | Inr a3 \<Rightarrow>
            delivered a3 = delivered a @ map (Pair new) (filter reachesHandler events)
            \<and> editorState a3 = editorState a
            \<and> (let a4 = clearKeyHandler a3; a5 = commandSettled a4 in
                 gameKeyHandler a4 = None \<and> documentListeners a4 = []
                 \<and> keyEvent commandRegistry event a4 = xtermKeyEvent commandRegistry event a4
                 \<and> (bootComplete a \<and> \<not> isCommandRunning a \<and> \<not> mobile a
                      \<and> code \<notin> set specialCodes \<longrightarrow>
                      keyEvent commandRegistry (printableKey c code) a4 =
                        Inr (xwrite [c] (a4\<lparr>currentLine := currentLine a @ [c]\<rparr>)))
                 \<and> (\<not> isCommandRunning a \<longrightarrow> a5 = a4)
                 \<and> gameKeyHandler a5 = None \<and> documentListeners a5 = []
                 \<and> \<not> isCommandRunning a5 \<and> editorState a5 = editorState a
                 \<and> (bootComplete a \<and> \<not> mobile a \<longrightarrow>
                      (code \<notin> set specialCodes \<longrightarrow>
                         keyEvent commandRegistry (printableKey c code) a5 =
                           Inr (xwrite [c] (a5\<lparr>currentLine := currentLine a @ [c]\<rparr>)))
                      \<and> keyEvent commandRegistry arrowUp a5 = navigateHistoryUp a5
                      \<and> keyEvent commandRegistry arrowDown a5 = navigateHistoryDown a5
                      \<and> keyEvent commandRegistry tabKey a5 = Inr (handleTab commandRegistry a5))
                 \<and> (isCommandRunning a \<longrightarrow>
                      keyEvent commandRegistry arrowUp a4 = Inr a4
                      \<and> keyEvent commandRegistry arrowDown a4 = Inr a4
                      \<and> keyEvent commandRegistry tabKey a4 = Inr a4
                      \<and> (code \<notin> set specialCodes \<longrightarrow>
                           keyEvent commandRegistry (printableKey c code) a4 = Inr a4))))"
proof -
  let ?a1 = "setKeyHandler old a"
  let ?a2 = "setKeyHandler new ?a1"
  let ?a3 = "?a2\<lparr>delivered := delivered ?a2 @ map (Pair new) (filter reachesHandler events)\<rparr>"
  let ?a4 = "clearKeyHandler ?a3"
  let ?a5 = "commandSettled ?a4"
  have wf1: "captureWellFormed ?a1"
    using assms by (rule captureWellFormed_setKeyHandler)
  have wf2: "captureWellFormed ?a2"
    using wf1 by (rule captureWellFormed_setKeyHandler)
  have a2: "?a2 = ?a1\<lparr>gameKeyHandler := Some new,
       boundGameKeyboardHandler := Some (nextListener ?a1),
       nextListener := nextListener ?a1 + 1,
       documentListeners := [(Keydown, nextListener ?a1), (Keyup, nextListener ?a1)]\<rparr>"
    using wf1 by (rule setKeyHandler_wellFormed)
  have g2: "gameKeyHandler ?a2 = Some new"
    and l2: "map fst (documentListeners ?a2) = [Keydown, Keyup]"
    by (subst a2, simp)+
  have e1: "editorState ?a1 = editorState a" and d1: "delivered ?a1 = delivered a"
    and f1: "bootComplete ?a1 = bootComplete a" "isCommandRunning ?a1 = isCommandRunning a"
      "mobile ?a1 = mobile a"
    by (simp_all add: setKeyHandler_wellFormed [OF assms] editorState_def)
  have e2: "editorState ?a2 = editorState a" and d2: "delivered ?a2 = delivered a"
    and f2: "bootComplete ?a2 = bootComplete a" "isCommandRunning ?a2 = isCommandRunning a"
      "mobile ?a2 = mobile a"
    using e1 d1 f1 by (simp_all add: setKeyHandler_wellFormed [OF wf1] editorState_def)
  have run: "keyEvents commandRegistry events ?a2 = Inr ?a3"
    using wf2 g2 by (rule keyEvents_captured)
  have d3: "delivered ?a3 = delivered a @ map (Pair new) (filter reachesHandler events)"
    by (simp add: d2)
  have e3: "editorState ?a3 = editorState a"
    using e2 by (simp add: editorState_def)
  have wf3: "captureWellFormed ?a3"
    using wf2 by (simp add: captureWellFormed_def)
  have a4: "?a4 = ?a3\<lparr>gameKeyHandler := None, boundGameKeyboardHandler := None,
                       documentListeners := []\<rparr>"
    using wf3 by (rule clearKeyHandler_wellFormed)
  have g4: "gameKeyHandler ?a4 = None" and l4: "documentListeners ?a4 = []"
    by (subst a4, simp)+
  have e4: "editorState ?a4 = editorState a"
    using e3 by (subst a4) (simp add: editorState_def)
  have c4: "currentLine ?a4 = currentLine a"
    using e4 by (simp add: editorState_def)
  have f4: "bootComplete ?a4 = bootComplete a" "isCommandRunning ?a4 = isCommandRunning a"
    "mobile ?a4 = mobile a"
    using f2 by (subst a4, simp)+
  have rel: "keyEvent commandRegistry event ?a4 = xtermKeyEvent commandRegistry event ?a4"
    using g4 l4 by (rule keyEvent_released)
  have typed: "keyEvent commandRegistry (printableKey c code) ?a4 =
        Inr (xwrite [c] (?a4\<lparr>currentLine := currentLine a @ [c]\<rparr>))"
    if "bootComplete a" "\<not> isCommandRunning a" "\<not> mobile a" "code \<notin> set specialCodes"
  proof -
    have "shellFocus ?a4"
      using that g4 l4 f4 by (simp add: shellFocus_def)
    from printableKey_shell [OF this that(4)] show ?thesis
      by (simp only: c4)
  qed
  have same: "?a5 = ?a4" if "\<not> isCommandRunning a"
    using that f4(2) by (simp add: commandSettled_def)
  have g5: "gameKeyHandler ?a5 = None" and l5: "documentListeners ?a5 = []"
    and r5: "\<not> isCommandRunning ?a5"
    using g4 l4 by (simp_all add: commandSettled_def)
  have e5: "editorState ?a5 = editorState a"
    using e4 by (simp add: commandSettled_def editorState_def)
  have c5: "currentLine ?a5 = currentLine a"
    using e5 by (simp add: editorState_def)
  have f5: "bootComplete ?a5 = bootComplete a" "mobile ?a5 = mobile a"
    using f4 by (simp_all add: commandSettled_def)
  have settled: "(code \<notin> set specialCodes \<longrightarrow>
        keyEvent commandRegistry (printableKey c code) ?a5 =
          Inr (xwrite [c] (?a5\<lparr>currentLine := currentLine a @ [c]\<rparr>)))
      \<and> keyEvent commandRegistry arrowUp ?a5 = navigateHistoryUp ?a5
      \<and> keyEvent commandRegistry arrowDown ?a5 = navigateHistoryDown ?a5
      \<and> keyEvent commandRegistry tabKey ?a5 = Inr (handleTab commandRegistry ?a5)"
    if "bootComplete a" "\<not> mobile a"
  proof -
    have focus: "shellFocus ?a5"
      using that g5 l5 r5 f5 by (simp add: shellFocus_def)
    have "keyEvent commandRegistry (printableKey c code) ?a5 =
          Inr (xwrite [c] (?a5\<lparr>currentLine := currentLine a @ [c]\<rparr>))"
      if "code \<notin> set specialCodes"
      using printableKey_shell [OF focus that] by (simp only: c5)
    then show ?thesis
      using arrowUp_shell [OF focus] arrowDown_shell [OF focus] tabKey_shell [OF focus]
      by blast
  qed
  have dropped: "keyEvent commandRegistry arrowUp ?a4 = Inr ?a4
      \<and> keyEvent commandRegistry arrowDown ?a4 = Inr ?a4
      \<and> keyEvent commandRegistry tabKey ?a4 = Inr ?a4
      \<and> (code \<notin> set specialCodes \<longrightarrow>
           keyEvent commandRegistry (printableKey c code) ?a4 = Inr ?a4)"
    if "isCommandRunning a"
  proof -
    have r4: "isCommandRunning ?a4"
      using that f4(2) by simp
    show ?thesis
      using keys_dropped_while_running [OF g4 l4 r4] by blast
  qed
  show ?thesis
    unfolding Let_def run sum.case
    using g2 l2 d3 e3 g4 l4 rel typed same g5 l5 r5 e5 settled dropped by blast
qed

theorem capture_replace_release_witness:
  "captureWellFormed runningVim \<and> isCommandRunning runningVim
   \<and> map_sum id (\<lambda>a. map fst (delivered a))
        (keyEvents reg3 [arrowUp, printableKey (CHR ''z'') 90]
           (setKeyHandler 2 (setKeyHandler 1 runningVim))) = Inr [2, 2]
   \<and> map_sum id currentLine
        (keyEvents reg3 [arrowUp, printableKey (CHR ''z'') 90]
           (setKeyHandler 2 (setKeyHandler 1 runningVim))) = Inr []
   \<and> keyEvent reg3 (printableKey (CHR ''z'') 90)
        (clearKeyHandler (setKeyHandler 2 (setKeyHandler 1 runningVim))) =
       Inr (clearKeyHandler (setKeyHandler 2 (setKeyHandler 1 runningVim)))
   \<and> map_sum id currentLine
        (keyEvent reg3 (printableKey (CHR ''z'') 90)
           (commandSettled (clearKeyHandler (setKeyHandler 2 (setKeyHandler 1 runningVim)))))
       = Inr ''z''"
proof -
  have wf: "captureWellFormed runningVim"
    by (simp add: runningVim_def handleEnter_def executeCommand_def xwrite_def
        captureWellFormed_def newAdapter_def Let_def)
  have flags: "bootComplete runningVim \<and> isCommandRunning runningVim \<and> \<not> mobile runningVim
      \<and> 90 \<notin> set specialCodes"
    by (simp add: runningVim_def handleEnter_def executeCommand_def xwrite_def newAdapter_def
        specialCodes_def Let_def)
  have line: "currentLine runningVim = []" and none: "delivered runningVim = []"
    by (simp_all add: runningVim_def handleEnter_def executeCommand_def xwrite_def
        newAdapter_def Let_def)
  define evs where "evs = [arrowUp, printableKey (CHR ''z'') 90]"
  define a2 where "a2 = setKeyHandler (2::nat) (setKeyHandler 1 runningVim)"
  have reach: "filter reachesHandler evs = evs"
    by (simp add: evs_def reachesHandler_def arrowUp_def printableKey_def keyDown_def)
  have "case keyEvents reg3 evs a2 of
          Inl f \<Rightarrow> False
        | Inr a3 \<Rightarrow> delivered a3 = delivered runningVim @ map (Pair 2) (filter reachesHandler evs)
                    \<and> editorState a3 = editorState runningVim"
    using capture_replace_release [OF wf, where new = 2 and old = 1 and commandRegistry = reg3
        and events = evs]
    unfolding Let_def a2_def by (auto split: sum.splits)
  then obtain a3 where run: "keyEvents reg3 evs a2 = Inr a3"
    and d3: "delivered a3 = map (Pair 2) evs"
    and e3: "editorState a3 = editorState runningVim"
    by (cases "keyEvents reg3 evs a2") (simp_all add: none reach)
  have one: "map_sum id (\<lambda>a. map fst (delivered a)) (keyEvents reg3 evs a2) = Inr [2, 2]"
    by (simp add: run d3) (simp add: evs_def)
  have two: "map_sum id currentLine (keyEvents reg3 evs a2) = Inr []"
    using e3 by (simp add: run editorState_def line)
  have nil: "keyEvents reg3 [] a2 = Inr a2"
    by simp
  from capture_replace_release [OF wf, where new = 2 and old = 1 and commandRegistry = reg3
        and events = "[]" and code = 90 and c = "CHR ''z''" and event = arrowUp] flags nil
  have three: "keyEvent reg3 (printableKey (CHR ''z'') 90) (clearKeyHandler a2) =
      Inr (clearKeyHandler a2)"
    and "keyEvent reg3 (printableKey (CHR ''z'') 90) (commandSettled (clearKeyHandler a2)) =
      Inr (xwrite ''z'' ((commandSettled (clearKeyHandler a2))\<lparr>currentLine :=
        currentLine runningVim @ ''z''\<rparr>))"
    unfolding Let_def a2_def by simp_all
  then have four: "map_sum id currentLine
        (keyEvent reg3 (printableKey (CHR ''z'') 90) (commandSettled (clearKeyHandler a2)))
      = Inr ''z''"
    by (simp add: xwrite_def line)
  from wf flags one two three four show ?thesis
    unfolding evs_def a2_def by blast
qed

subsection \<open>What key events keep\<close>

lemma captureWellFormed_captureState:
  "captureState a' = captureState a \<Longrightarrow> captureWellFormed a' = captureWellFormed a"
  by (simp add: captureState_def captureWellFormed_def)

lemma xwrite_keeps [simp]:
  "captureState (xwrite t a) = captureState a"
  "historyIndex (xwrite t a) = historyIndex a"
  "commandHistory (xwrite t a) = commandHistory a"
  by (simp_all add: xwrite_def captureState_def)

lemma fold_xwrite_keeps [simp]:
  "captureState (fold xwrite ts a) = captureState a"
  "historyIndex (fold xwrite ts a) = historyIndex a"
  "commandHistory (fold xwrite ts a) = commandHistory a"
  by (induction ts arbitrary: a) simp_all

lemma captureState_updates [simp]:
  "captureState (a\<lparr>currentLine := l\<rparr>) = captureState a"
  "captureState (a\<lparr>savedCurrentLine := s\<rparr>) = captureState a"
  "captureState (a\<lparr>historyIndex := i\<rparr>) = captureState a"
  "captureState (a\<lparr>commandHistory := h\<rparr>) = captureState a"
  "captureState (a\<lparr>xterm := x\<rparr>) = captureState a"
  "captureState (a\<lparr>outputBuffer := b\<rparr>) = captureState a"
  "captureState (a\<lparr>bootComplete := c\<rparr>) = captureState a"
  "captureState (a\<lparr>isCommandRunning := r\<rparr>) = captureState a"
  "captureState (a\<lparr>launched := ls\<rparr>) = captureState a"
  "captureState (a\<lparr>delivered := d\<rparr>) = captureState a"
  by (simp_all add: captureState_def)

lemma replaceCurrentLine_capture [simp]:
  "captureState (replaceCurrentLine l a) = captureState a"
  by (simp add: replaceCurrentLine_def Let_def)

lemma handleTab_keeps [simp]:
  "captureState (handleTab commandRegistry a) = captureState a"
  "historyIndex (handleTab commandRegistry a) = historyIndex a"
  "commandHistory (handleTab commandRegistry a) = commandHistory a"
  by (simp_all add: handleTab_def Let_def)

lemma handleBackspace_keeps [simp]:
  "captureState (handleBackspace a) = captureState a"
  "historyIndex (handleBackspace a) = historyIndex a"
  "commandHistory (handleBackspace a) = commandHistory a"
  by (simp_all add: handleBackspace_def)

lemma handleKey_keeps [simp]:
  "captureState (handleKey k e a) = captureState a"
  "historyIndex (handleKey k e a) = historyIndex a"
  "commandHistory (handleKey k e a) = commandHistory a"
  by (simp_all add: handleKey_def Let_def)

lemma onKey_keeps [simp]:
  "captureState (onKey k e a) = captureState a"
  "historyIndex (onKey k e a) = historyIndex a"
  "commandHistory (onKey k e a) = commandHistory a"
  by (simp_all add: onKey_def)

lemma onData_keeps [simp]:
  "captureState (onData d a) = captureState a"
  "historyIndex (onData d a) = historyIndex a"
  "commandHistory (onData d a) = commandHistory a"
  by (simp_all add: onData_def)

lemma executeCommand_keeps [simp]:
  "captureState (executeCommand a) = captureState a"
  "historyInRange (executeCommand a)"
  by (simp_all add: executeCommand_def historyInRange_def Let_def)

lemma handleEnter_keeps [simp]:
  "captureState (handleEnter a) = captureState a"
  "historyInRange a \<Longrightarrow> historyInRange (handleEnter a)"
  by (simp_all add: handleEnter_def historyInRange_def xclear_def Let_def
      executeCommand_keeps(2) [unfolded historyInRange_def])

lemma navigateHistoryUp_keeps:
  assumes "historyInRange a"
  shows "\<exists>a'. navigateHistoryUp a = Inr a' \<and> historyInRange a'
           \<and> captureState a' = captureState a"
proof (cases "commandHistory a = []")
  case True
  with assms show ?thesis
    by (simp add: navigateHistoryUp_def)
next
  case False
  with assms show ?thesis
    by (simp add: navigateHistoryUp_def historyInRange_def historyEntry_def Let_def
        replaceCurrentLine_fields)
qed

lemma navigateHistoryDown_keeps:
  assumes "historyInRange a"
  shows "\<exists>a'. navigateHistoryDown a = Inr a' \<and> historyInRange a'
           \<and> captureState a' = captureState a"
  using assms
  by (simp add: navigateHistoryDown_def historyInRange_def historyEntry_def Let_def
      replaceCurrentLine_fields)

lemma customKeyEventHandler_keeps:
  assumes "historyInRange a"
  shows "case customKeyEventHandler commandRegistry event a of
           Inl f \<Rightarrow> False
         | Inr (p, a') \<Rightarrow> historyInRange a' \<and> captureState a' = captureState a"
proof -
  obtain u where u: "navigateHistoryUp a = Inr u" "historyInRange u" "captureState u = captureState a"
    using navigateHistoryUp_keeps [OF assms] by blast
  obtain d where d: "navigateHistoryDown a = Inr d" "historyInRange d" "captureState d = captureState a"
    using navigateHistoryDown_keeps [OF assms] by blast
  have t: "historyInRange (handleTab commandRegistry a)"
    and b: "historyInRange (handleBackspace a)"
    and e: "historyInRange (handleEnter a)"
    using assms by (simp_all add: historyInRange_def handleEnter_keeps(2) [unfolded historyInRange_def])
  show ?thesis
    using assms u d t b e
    by (simp add: customKeyEventHandler_def handleArrowUp_def handleArrowDown_def)
qed

lemma boundListener_keeps [simp]:
  "captureState (fst (boundListener event a)) = captureState a"
  "historyIndex (fst (boundListener event a)) = historyIndex a"
  "commandHistory (fst (boundListener event a)) = commandHistory a"
  by (simp_all add: boundListener_def captureState_def split: option.splits)

lemma runListeners_keeps:
  "captureState (fst (runListeners event ls (a, s))) = captureState a
   \<and> historyIndex (fst (runListeners event ls (a, s))) = historyIndex a
   \<and> commandHistory (fst (runListeners event ls (a, s))) = commandHistory a"
proof (induction ls arbitrary: a s)
  case Nil
  show ?case by simp
next
  case (Cons p ls)
  obtain t l where p: "p = (t, l)" by (cases p)
  obtain a1 s1 where b: "boundListener event a = (a1, s1)" by (cases "boundListener event a")
  have k: "captureState a1 = captureState a" "historyIndex a1 = historyIndex a"
    "commandHistory a1 = commandHistory a"
    using boundListener_keeps [of event a] b by simp_all
  show ?case
    using Cons [of a1 "s \<or> s1"] Cons [of a s] k by (simp add: p b)
qed

text \<open>
  Whatever is captured and whatever listeners \<open>document\<close> holds: while the history index
  is in range, a key event is handled without a fault, keeps the index in range and
  does not change what is captured.  So the fault of the model is never reached from
  the constructor's state, and key events keep a well-formed capture well formed.
\<close>

lemma keyEvent_keeps:
  assumes "historyInRange a"
  shows "\<exists>a'. keyEvent commandRegistry event a = Inr a' \<and> historyInRange a'
           \<and> captureState a' = captureState a"
proof -
  obtain a1 stopped where r: "runListeners event (documentListeners a) (a, False) = (a1, stopped)"
    by (cases "runListeners event (documentListeners a) (a, False)")
  have k: "captureState a1 = captureState a" "historyInRange a1"
    using runListeners_keeps [of event "documentListeners a" a False] r assms
    by (simp_all add: historyInRange_def)
  have x: "\<exists>a'. xtermKeyEvent commandRegistry event a1 = Inr a' \<and> historyInRange a'
           \<and> captureState a' = captureState a1"
    using customKeyEventHandler_keeps [OF k(2), of commandRegistry event]
    by (auto simp: xtermKeyEvent_def historyInRange_def split: sum.splits option.splits)
  show ?thesis
    using k x by (auto simp: keyEvent_def r)
qed

lemma keyEvent_wellFormed:
  assumes "historyInRange a" and "captureWellFormed a"
  shows "\<exists>a'. keyEvent commandRegistry event a = Inr a' \<and> historyInRange a'
           \<and> captureWellFormed a'"
  using keyEvent_keeps [OF assms(1), of commandRegistry event] assms(2)
    captureWellFormed_captureState by blast

lemma newAdapter_inRange: "historyInRange (newAdapter rows isMobile)"
  by (simp add: historyInRange_def newAdapter_def)

end
